theory Spec2Isabelle
  imports Complex_Main "HOL-Library.Multiset" "HOL-Library.Word"
begin

unbundle bit_operations_syntax

section \<open>Data model (perspector.h)\<close>

text \<open>
  \<^verbatim>\<open>typedef int32_t coord; #define COORD_MAX INT32_MAX\<close>.
  A \<open>coord\<close> is modelled as an \<open>int\<close>; where the C code computes on \<open>coord\<close> or
  \<open>int\<close> values the two's complement wrap-around is written out with \<open>wrap32\<close>.
  A \<open>double\<close> is modelled as a \<open>real\<close>: the floating point operations of the
  source are read as the exact operations on real numbers, so that nothing below speaks
  of rounding errors. The routines of the C library and of the GNU Scientific Library
  that the program calls (\<open>qsort\<close>, \<open>gsl_linalg_SV_decomp\<close>, \<open>calloc\<close>) are
  parameters of the functions that call them.
\<close>

type_synonym coord = int

definition COORD_MAX :: coord where
  "COORD_MAX = 2147483647"

definition wrap32 :: "int \<Rightarrow> int" where
  "wrap32 v = (v + 2147483648) mod 4294967296 - 2147483648"

text \<open>
  The structs of the header. The fields \<open>x\<close> and \<open>y\<close> of \<open>pixel\<close> and \<open>point\<close> are
  named \<open>px\<close>, \<open>py\<close> and \<open>ptx\<close>, \<open>pty\<close>; the field \<open>count\<close> of \<open>pixelset\<close> is
  \<open>count_px\<close> and the field \<open>tl\<close> of \<open>rect\<close> is \<open>tl_corner\<close> (the source's names are
  taken by variables and by constants of the library).
\<close>

record pixel =
  px :: coord
  py :: coord

record point =
  ptx :: real
  pty :: real

record pixelset =
  pixels :: "pixel list"
  count_px :: nat

record rect =
  bl :: pixel
  br :: pixel
  tr :: pixel
  tl_corner :: pixel

record color =
  blue :: "8 word"
  green :: "8 word"
  red :: "8 word"
  alpha :: "8 word"

datatype position = LEFT | RIGHT | EQUAL | OPPOSED | UNDEF

text \<open>The values of the enumeration: \<^verbatim>\<open>LEFT = 1, RIGHT = 2, EQUAL = 4, OPPOSED = 8, UNDEF = 16\<close>.\<close>

fun position_val :: "position \<Rightarrow> nat" where
  "position_val LEFT = 1"
| "position_val RIGHT = 2"
| "position_val EQUAL = 4"
| "position_val OPPOSED = 8"
| "position_val UNDEF = 16"

datatype direction = DIR_X | DIR_Y

section \<open>The library routine qsort\<close>

text \<open>
  \<open>qsort\<close> belongs to the C library, not to the program: the classifier takes it as a
  parameter \<open>qs\<close>. What the C standard promises about it is \<open>qsort_contract\<close>: the
  result is a rearrangement of the array, and it is ordered by the comparator whenever
  the comparator is consistent on the elements (a total preorder). The order of
  elements that compare equal is left open, and so is the result for an inconsistent
  comparator. \<open>qsort_ref\<close>, an insertion sort, is one routine that keeps the contract.
\<close>

type_synonym qsort_fn = "(pixel \<Rightarrow> pixel \<Rightarrow> int) \<Rightarrow> pixel list \<Rightarrow> pixel list"

definition consistent_on :: "('a \<Rightarrow> 'a \<Rightarrow> int) \<Rightarrow> 'a set \<Rightarrow> bool" where
  "consistent_on cmp S \<longleftrightarrow>
     (\<forall>a\<in>S. \<forall>b\<in>S. (cmp a b < 0 \<longleftrightarrow> 0 < cmp b a) \<and> (cmp a b = 0 \<longleftrightarrow> cmp b a = 0)) \<and>
     (\<forall>a\<in>S. \<forall>b\<in>S. \<forall>c\<in>S. cmp a b \<le> 0 \<and> cmp b c \<le> 0 \<longrightarrow> cmp a c \<le> 0)"

definition qsort_contract :: "qsort_fn \<Rightarrow> bool" where
  "qsort_contract qs \<longleftrightarrow>
     (\<forall>cmp xs. mset (qs cmp xs) = mset xs \<and>
        (consistent_on cmp (set xs) \<longrightarrow> sorted_wrt (\<lambda>a b. cmp a b \<le> 0) (qs cmp xs)))"

fun insert_by :: "('a \<Rightarrow> 'a \<Rightarrow> int) \<Rightarrow> 'a \<Rightarrow> 'a list \<Rightarrow> 'a list" where
  "insert_by cmp v [] = [v]"
| "insert_by cmp v (w # ws) = (if cmp v w \<le> 0 then v # w # ws else w # insert_by cmp v ws)"

definition qsort_ref :: "('a \<Rightarrow> 'a \<Rightarrow> int) \<Rightarrow> 'a list \<Rightarrow> 'a list" where
  "qsort_ref cmp xs = foldr (insert_by cmp) xs []"

section \<open>Anchor classifier (perspector.c, lines 65-333)\<close>

definition comparex :: "pixel \<Rightarrow> pixel \<Rightarrow> int" where
  "comparex a b = wrap32 (px a - px b)"

definition comparey :: "pixel \<Rightarrow> pixel \<Rightarrow> int" where
  "comparey a b = wrap32 (py a - py b)"

text \<open>\<open>psort\<close> sorts the first \<open>count\<close> cells of the array and leaves the others.\<close>

definition psort :: "qsort_fn \<Rightarrow> pixelset \<Rightarrow> direction \<Rightarrow> pixelset" where
  "psort qs s dir =
     s\<lparr>pixels := qs (if dir = DIR_X then comparex else comparey) (take (count_px s) (pixels s))
                   @ drop (count_px s) (pixels s)\<rparr>"

definition pos :: "point \<Rightarrow> point \<Rightarrow> position" where
  "pos p refn =
     (if (ptx p = 0 \<and> pty p = 0) \<or> (ptx refn = 0 \<and> pty refn = 0) then UNDEF
      else if pty p * ptx refn - pty refn * ptx p = 0 then
        (if ptx p * ptx refn > 0 then EQUAL else OPPOSED)
      else if ptx refn = 0 then
        (if (pty refn > 0 \<and> ptx p < 0) \<or> (pty refn < 0 \<and> ptx p > 0) then LEFT else RIGHT)
      else if (ptx refn < 0 \<and> pty p < ptx p * pty refn / ptx refn) \<or>
              (ptx refn > 0 \<and> pty p > ptx p * pty refn / ptx refn) then LEFT
      else RIGHT)"

text \<open>The vector from the barycentre to a pixel: \<^verbatim>\<open>{ a.x - bar.x, a.y - bar.y }\<close>.\<close>

definition rel_to :: "point \<Rightarrow> pixel \<Rightarrow> point" where
  "rel_to bar a = \<lparr>ptx = real_of_int (px a) - ptx bar, pty = real_of_int (py a) - pty bar\<rparr>"

text \<open>
  \<open>compare_angle\<close> reads the globals \<open>ref\<close> and \<open>bar\<close>; here they are its first two
  arguments.
\<close>

definition compare_angle :: "pixel \<Rightarrow> point \<Rightarrow> pixel \<Rightarrow> pixel \<Rightarrow> int" where
  "compare_angle ref bar a b =
     (let refn = rel_to bar ref; an = rel_to bar a; bn = rel_to bar b;
          an_refn = pos an refn; an_bn = pos an bn; bn_refn = pos bn refn
      in if an_bn = EQUAL \<or> an_bn = UNDEF then 0
         else if an_refn = EQUAL
                 \<or> (bn_refn = LEFT \<and> an_refn = LEFT \<and> an_bn = RIGHT)
                 \<or> (bn_refn = RIGHT \<and> (an_bn = RIGHT \<or> an_refn = LEFT))
                 \<or> (bn_refn = OPPOSED \<and> an_refn = LEFT) then - 1
         else 1)"

text \<open>\<^verbatim>\<open>CMP_PIXEL(offset, pixel)\<close> at the loop index \<open>i\<close>.\<close>

definition cmp_pixel :: "pixelset \<Rightarrow> nat \<Rightarrow> nat \<Rightarrow> pixel \<Rightarrow> bool" where
  "cmp_pixel order' i offset p \<longleftrightarrow>
     px (pixels order' ! ((i + offset) mod 4)) = px p \<and>
     py (pixels order' ! ((i + offset) mod 4)) = py p"

text \<open>The search loop of \<open>check_order\<close>: the index at which it stops.\<close>

function find_start :: "pixelset \<Rightarrow> pixel \<Rightarrow> nat \<Rightarrow> nat" where
  "find_start order' p i =
     (if i < count_px order' then
        (if cmp_pixel order' i 0 p then i else find_start order' p (i + 1))
      else i)"
  by pat_completeness auto
termination
  by (relation "measure (\<lambda>(order', p, i). count_px order' - i)") auto

declare find_start.simps [simp del]

definition check_order :: "pixelset \<Rightarrow> pixel \<Rightarrow> pixel \<Rightarrow> pixel \<Rightarrow> pixel \<Rightarrow> bool" where
  "check_order order' bl' br' tr' tl' =
     (let i = find_start order' bl' 0
      in cmp_pixel order' i 1 br' \<and> cmp_pixel order' i 2 tr' \<and> cmp_pixel order' i 3 tl')"

text \<open>The condition of the first branch of \<open>projectable\<close> (lines 193-202).\<close>

definition direct_case :: "pixel list \<Rightarrow> bool" where
  "direct_case xsorted \<longleftrightarrow>
     px (xsorted ! 1) \<noteq> px (xsorted ! 2)
     \<and> (py (xsorted ! 0) < py (xsorted ! 2)
        \<or> py (xsorted ! 0) < py (xsorted ! 3)
        \<or> py (xsorted ! 1) < py (xsorted ! 2)
        \<or> py (xsorted ! 1) < py (xsorted ! 3))
     \<and> (py (xsorted ! 0) > py (xsorted ! 2)
        \<or> py (xsorted ! 0) > py (xsorted ! 3)
        \<or> py (xsorted ! 1) > py (xsorted ! 2)
        \<or> py (xsorted ! 1) > py (xsorted ! 3))
     \<and> py (xsorted ! 2) \<noteq> py (xsorted ! 3)"

text \<open>
  The assignment after a split by x (lines 205-218, and again lines 275-289) and
  after a split by y (lines 302-316).
\<close>

definition x_split :: "pixel list \<Rightarrow> rect" where
  "x_split xsorted =
     \<lparr>bl = (if py (xsorted ! 0) < py (xsorted ! 1) then xsorted ! 0 else xsorted ! 1),
      br = (if py (xsorted ! 2) < py (xsorted ! 3) then xsorted ! 2 else xsorted ! 3),
      tr = (if py (xsorted ! 2) < py (xsorted ! 3) then xsorted ! 3 else xsorted ! 2),
      tl_corner = (if py (xsorted ! 0) < py (xsorted ! 1) then xsorted ! 1 else xsorted ! 0)\<rparr>"

definition y_split :: "pixel list \<Rightarrow> rect" where
  "y_split ysorted =
     \<lparr>bl = (if px (ysorted ! 0) < px (ysorted ! 1) then ysorted ! 0 else ysorted ! 1),
      br = (if px (ysorted ! 0) < px (ysorted ! 1) then ysorted ! 1 else ysorted ! 0),
      tr = (if px (ysorted ! 2) < px (ysorted ! 3) then ysorted ! 3 else ysorted ! 2),
      tl_corner = (if px (ysorted ! 2) < px (ysorted ! 3) then ysorted ! 2 else ysorted ! 3)\<rparr>"

text \<open>The guards of the two splits in the last branch (lines 270-272 and 297-299).\<close>

definition x_split_strict :: "pixel list \<Rightarrow> bool" where
  "x_split_strict xsorted \<longleftrightarrow>
     px (xsorted ! 1) \<noteq> px (xsorted ! 2)
     \<and> py (xsorted ! 0) \<noteq> py (xsorted ! 1)
     \<and> py (xsorted ! 2) \<noteq> py (xsorted ! 3)"

definition y_split_strict :: "pixel list \<Rightarrow> bool" where
  "y_split_strict ysorted \<longleftrightarrow>
     py (ysorted ! 1) \<noteq> py (ysorted ! 2)
     \<and> px (ysorted ! 0) \<noteq> px (ysorted ! 1)
     \<and> px (ysorted ! 2) \<noteq> px (ysorted ! 3)"

text \<open>
  \<^verbatim>\<open>bar.x = (double)(a.x + b.x + c.x + d.x) / 4\<close>: the sum is a sum of \<open>coord\<close>.
\<close>

definition barycentre :: "pixel \<Rightarrow> pixel \<Rightarrow> pixel \<Rightarrow> pixel \<Rightarrow> point" where
  "barycentre a b c d =
     \<lparr>ptx = real_of_int (wrap32 (px a + px b + px c + px d)) / 4,
      pty = real_of_int (wrap32 (py a + py b + py c + py d)) / 4\<rparr>"

text \<open>\<^verbatim>\<open>unsigned int UNDESIRED = EQUAL | OPPOSED | UNDEF\<close>.\<close>

definition UNDESIRED :: nat where
  "UNDESIRED = position_val EQUAL OR position_val OPPOSED OR position_val UNDEF"

text \<open>The test of lines 249-254: each \<open>pos\<close> value is compared with \<open>UNDESIRED\<close> by \<open>==\<close>.\<close>

definition undesired_pair :: "point \<Rightarrow> pixel \<Rightarrow> pixel \<Rightarrow> pixel \<Rightarrow> pixel \<Rightarrow> bool" where
  "undesired_pair bar a b c d \<longleftrightarrow>
     (let an = rel_to bar a; bn = rel_to bar b; cn = rel_to bar c; dn = rel_to bar d
      in position_val (pos an bn) = UNDESIRED
         \<or> position_val (pos an cn) = UNDESIRED
         \<or> position_val (pos an dn) = UNDESIRED
         \<or> position_val (pos bn cn) = UNDESIRED
         \<or> position_val (pos bn dn) = UNDESIRED
         \<or> position_val (pos cn dn) = UNDESIRED)"

text \<open>
  The array \<open>order\<close> of lines 259-261: the anchors in their given order, sorted by
  \<open>compare_angle\<close> with the first anchor as reference.
\<close>

definition angular_order :: "qsort_fn \<Rightarrow> pixelset \<Rightarrow> pixelset" where
  "angular_order qs anchors =
     (let a = pixels anchors ! 0; b = pixels anchors ! 1;
          c = pixels anchors ! 2; d = pixels anchors ! 3
      in \<lparr>pixels = qs (compare_angle a (barycentre a b c d)) [a, b, c, d], count_px = 4\<rparr>)"

text \<open>The outcome of each split in the last branch: \<open>x_ok\<close> and \<open>y_ok\<close>.\<close>

definition x_ok :: "pixelset \<Rightarrow> pixel list \<Rightarrow> bool" where
  "x_ok order' xsorted \<longleftrightarrow>
     x_split_strict xsorted \<and>
     check_order order' (bl (x_split xsorted)) (br (x_split xsorted))
       (tr (x_split xsorted)) (tl_corner (x_split xsorted))"

definition y_ok :: "pixelset \<Rightarrow> pixel list \<Rightarrow> bool" where
  "y_ok order' ysorted \<longleftrightarrow>
     y_split_strict ysorted \<and>
     check_order order' (bl (y_split ysorted)) (br (y_split ysorted))
       (tr (y_split ysorted)) (tl_corner (y_split ysorted))"

text \<open>The last branch of \<open>projectable\<close> (lines 228-331).\<close>

definition diagonal_case :: "qsort_fn \<Rightarrow> pixelset \<Rightarrow> pixel list \<Rightarrow> pixel list \<Rightarrow> rect option" where
  "diagonal_case qs anchors xsorted ysorted =
     (let a = pixels anchors ! 0; b = pixels anchors ! 1;
          c = pixels anchors ! 2; d = pixels anchors ! 3
      in if undesired_pair (barycentre a b c d) a b c d then None
         else
           let order' = angular_order qs anchors
           in if y_ok order' ysorted \<and> \<not> x_ok order' xsorted then Some (y_split ysorted)
              else if \<not> y_ok order' ysorted \<and> x_ok order' xsorted then Some (x_split xsorted)
              else None)"

text \<open>
  \<open>projectable\<close> returns \<open>false\<close> (\<open>None\<close>) or \<open>true\<close> with the rectangle it has written
  to \<open>result\<close>.
\<close>

definition projectable :: "qsort_fn \<Rightarrow> pixelset \<Rightarrow> rect option" where
  "projectable qs anchors =
     (let xsorted = pixels (psort qs anchors DIR_X);
          ysorted = pixels (psort qs anchors DIR_Y)
      in if direct_case xsorted then Some (x_split xsorted)
         else if px (xsorted ! 1) = px (xsorted ! 2) \<or> py (ysorted ! 1) = py (ysorted ! 2)
           then None
         else diagonal_case qs anchors xsorted ysorted)"

section \<open>Homography estimator (perspector.c, lines 335-432)\<close>

text \<open>
  The array \<open>system_equation[81]\<close> is a store from cell numbers to values.
  \<^verbatim>\<open>MATRIX_ROW(row, m0, ..., m8)\<close> assigns the nine cells of one row.
\<close>

definition MATRIX_ROW ::
  "nat \<Rightarrow> real \<Rightarrow> real \<Rightarrow> real \<Rightarrow> real \<Rightarrow> real \<Rightarrow> real \<Rightarrow> real \<Rightarrow> real \<Rightarrow> real
     \<Rightarrow> (nat \<Rightarrow> real) \<Rightarrow> (nat \<Rightarrow> real)" where
  "MATRIX_ROW row m0 m1 m2 m3 m4 m5 m6 m7 m8 system_equation =
     system_equation
       (9 * row + 0 := m0, 9 * row + 1 := m1, 9 * row + 2 := m2,
        9 * row + 3 := m3, 9 * row + 4 := m4, 9 * row + 5 := m5,
        9 * row + 6 := m6, 9 * row + 7 := m7, 9 * row + 8 := m8)"

definition init_system_equation ::
  "pixel \<Rightarrow> pixel \<Rightarrow> pixel \<Rightarrow> pixel \<Rightarrow> coord \<Rightarrow> coord \<Rightarrow> (nat \<Rightarrow> real)" where
  "init_system_equation bl' br' tr' tl' width height =
     (let w = real_of_int width; h = real_of_int height;
          bl_x = real_of_int (px bl'); bl_y = real_of_int (py bl');
          br_x = real_of_int (px br'); br_y = real_of_int (py br');
          tr_x = real_of_int (px tr'); tr_y = real_of_int (py tr');
          tl_x = real_of_int (px tl'); tl_y = real_of_int (py tl')
      in
        MATRIX_ROW 7 0 0 0 tl_x tl_y 1 (- h * tl_x) (- h * tl_y) (- h)
       (MATRIX_ROW 6 tl_x tl_y 1 0 0 0 0 0 0
       (MATRIX_ROW 5 0 0 0 tr_x tr_y 1 (- h * tr_x) (- h * tr_y) (- h)
       (MATRIX_ROW 4 tr_x tr_y 1 0 0 0 (- w * tr_x) (- w * tr_y) (- w)
       (MATRIX_ROW 3 0 0 0 br_x br_y 1 0 0 0
       (MATRIX_ROW 2 br_x br_y 1 0 0 0 (- w * br_x) (- w * br_y) (- w)
       (MATRIX_ROW 1 0 0 0 bl_x bl_y 1 0 0 0
       (MATRIX_ROW 0 bl_x bl_y 1 0 0 0 0 0 0
       (\<lambda>_. 0)))))))))"

text \<open>
  \<open>gsl_linalg_SV_decomp\<close> belongs to the GNU Scientific Library, not to the program: the
  estimator takes it as a parameter \<open>svd\<close>, from the array of the system to the array
  \<open>v\<close> of the right singular vectors. The program keeps the last column of \<open>v\<close>.
\<close>

type_synonym svd_fn = "(nat \<Rightarrow> real) \<Rightarrow> (nat \<Rightarrow> real)"

definition make_transform_matrix ::
  "qsort_fn \<Rightarrow> svd_fn \<Rightarrow> pixelset \<Rightarrow> coord \<Rightarrow> coord \<Rightarrow> real list option" where
  "make_transform_matrix qs svd anchors width height =
     (case projectable qs anchors of
        None \<Rightarrow> None
      | Some vertices \<Rightarrow>
          let v = svd (init_system_equation (bl vertices) (br vertices) (tr vertices)
                         (tl_corner vertices) width height)
          in Some (map (\<lambda>i. v (i * 9 + 8)) [0..<9]))"

text \<open>
  What an exact singular value decomposition gives for this system: the matrix has a
  row of zeros, hence its smallest singular value is zero and the last column of \<open>v\<close>
  is a vector of length one that the matrix sends to zero. Only this much is asked of
  \<open>svd\<close>: its last column is a vector other than zero that solves the system.
\<close>

definition solves_system :: "(nat \<Rightarrow> real) \<Rightarrow> real list \<Rightarrow> bool" where
  "solves_system A m \<longleftrightarrow>
     length m = 9 \<and> (\<exists>c\<in>{0..<9}. m ! c \<noteq> 0) \<and>
     (\<forall>r\<in>{0..<9}. (\<Sum>c = 0..<9. A (9 * r + c) * m ! c) = 0)"

definition svd_exact_on :: "svd_fn \<Rightarrow> (nat \<Rightarrow> real) \<Rightarrow> bool" where
  "svd_exact_on svd A \<longleftrightarrow> solves_system A (map (\<lambda>i. svd A (i * 9 + 8)) [0..<9])"

text \<open>A decomposition result with a given last column, for concrete runs.\<close>

definition svd_with_column :: "real list \<Rightarrow> svd_fn" where
  "svd_with_column m A = (\<lambda>k. if k mod 9 = 8 then m ! (k div 9) else 0)"

text \<open>\<open>round\<close> of the C library: to the nearest integer, halves away from zero.\<close>

definition c_round :: "real \<Rightarrow> int" where
  "c_round v = (if 0 \<le> v then \<lfloor>v + 1 / 2\<rfloor> else - \<lfloor>- v + 1 / 2\<rfloor>)"

text \<open>
  The transformation of one pixel (lines 486-496, and \<open>test_transform\<close> of the tests):
  the product of the matrix with \<open>(x, y, 1)\<close>, the division by the third component and
  the rounding. When the third component is zero the quotient is an infinity or a NaN
  and its conversion to \<open>coord\<close> is not defined: the result is \<open>None\<close>. A rounded
  quotient beyond the range of \<open>coord\<close> is kept as it is; it lies outside every raster.
\<close>

definition transform_pixel :: "real list \<Rightarrow> coord \<Rightarrow> coord \<Rightarrow> (coord \<times> coord) option" where
  "transform_pixel m x y =
     (let pout0 = m ! 0 * real_of_int x + m ! 1 * real_of_int y + m ! 2 * 1;
          pout1 = m ! 3 * real_of_int x + m ! 4 * real_of_int y + m ! 5 * 1;
          pout2 = m ! 6 * real_of_int x + m ! 7 * real_of_int y + m ! 8 * 1
      in if pout2 = 0 then None
         else Some (c_round (pout0 / pout2), c_round (pout1 / pout2)))"

text \<open>Three pixels on one line, for the statement about quadrilaterals.\<close>

definition collinear3 :: "pixel \<Rightarrow> pixel \<Rightarrow> pixel \<Rightarrow> bool" where
  "collinear3 p q s \<longleftrightarrow> (px q - px p) * (py s - py p) = (py q - py p) * (px s - px p)"

section \<open>Resampler (perspector.c, lines 434-584)\<close>

text \<open>
  The rasters are stores from the cell number \<open>y * width + x\<close> to colors; the mask is
  a store of booleans. \<open>surface\<close> holds what the two passes write: the destination
  raster and the mask.
\<close>

record surface =
  sink_data :: "int \<Rightarrow> color"
  transformed_mask :: "int \<Rightarrow> bool"

text \<open>\<^verbatim>\<open>for (v = i; v < n; v++) body\<close>.\<close>

function for_loop :: "int \<Rightarrow> int \<Rightarrow> (int \<Rightarrow> 's \<Rightarrow> 's) \<Rightarrow> 's \<Rightarrow> 's" where
  "for_loop i n body s = (if i < n then for_loop (i + 1) n body (body i s) else s)"
  by pat_completeness auto
termination
  by (relation "measure (\<lambda>(i, n, body, s). nat (n - i))") auto

declare for_loop.simps [simp del]

text \<open>The body of the first pair of loops (lines 486-501).\<close>

definition forward_step ::
  "real list \<Rightarrow> coord \<Rightarrow> coord \<Rightarrow> (int \<Rightarrow> color) \<Rightarrow> coord \<Rightarrow> coord \<Rightarrow> coord \<Rightarrow> surface \<Rightarrow> surface" where
  "forward_step m sink_width sink_height bg_data bg_width x y s =
     (case transform_pixel m x y of
        None \<Rightarrow> s
      | Some (x2, y2) \<Rightarrow>
          if x2 \<ge> 0 \<and> y2 \<ge> 0 \<and> x2 < sink_width \<and> y2 < sink_height then
            s\<lparr>sink_data := (sink_data s)(y2 * sink_width + x2 := bg_data (y * bg_width + x)),
              transformed_mask := (transformed_mask s)(y2 * sink_width + x2 := True)\<rparr>
          else s)"

text \<open>
  The first pair of loops (lines 483-503). A pixel for which \<open>transform_pixel\<close> gives
  nothing is skipped, as it is on a machine whose conversion of an infinity or a NaN
  gives the least \<open>coord\<close>.
\<close>

definition forward_pass ::
  "real list \<Rightarrow> coord \<Rightarrow> coord \<Rightarrow> (int \<Rightarrow> color) \<Rightarrow> coord \<Rightarrow> coord \<Rightarrow> surface \<Rightarrow> surface" where
  "forward_pass m sink_width sink_height bg_data bg_width bg_height s =
     for_loop 0 bg_width
       (\<lambda>x. for_loop 0 bg_height (forward_step m sink_width sink_height bg_data bg_width x)) s"

text \<open>
  The second pair of loops can run forever. Each of its loops that has no bound of its
  own takes fuel, the number of rounds it may still make, and gives \<open>None\<close> when the
  fuel is used up.

  \<^verbatim>\<open>for (v = i; v <= hi; v += d) body\<close>:
\<close>

fun step_loop :: "nat \<Rightarrow> int \<Rightarrow> int \<Rightarrow> int \<Rightarrow> (int \<Rightarrow> 's \<Rightarrow> 's) \<Rightarrow> 's \<Rightarrow> 's option" where
  "step_loop 0 i hi d body s = (if i \<le> hi then None else Some s)"
| "step_loop (Suc f) i hi d body s =
     (if i \<le> hi then step_loop f (i + d) hi d body (body i s) else Some s)"

text \<open>\<^verbatim>\<open>for (v = i; v < n; v++) body\<close> with a body that may not return.\<close>

function for_loop_opt :: "int \<Rightarrow> int \<Rightarrow> (int \<Rightarrow> 's \<Rightarrow> 's option) \<Rightarrow> 's \<Rightarrow> 's option" where
  "for_loop_opt i n body s =
     (if i < n then
        (case body i s of None \<Rightarrow> None | Some s' \<Rightarrow> for_loop_opt (i + 1) n body s')
      else Some s)"
  by pat_completeness auto
termination
  by (relation "measure (\<lambda>(i, n, body, s). nat (n - i))") auto

declare for_loop_opt.simps [simp del]

text \<open>The accumulators \<open>count\<close>, \<open>red_buf\<close>, \<open>green_buf\<close>, \<open>blue_buf\<close> and \<open>alpha_buf\<close>.\<close>

record accum =
  found :: int
  red_buf :: real
  green_buf :: real
  blue_buf :: real
  alpha_buf :: real

text \<open>The body of the innermost loops (lines 544-551 and 557-564).\<close>

definition sample :: "surface \<Rightarrow> coord \<Rightarrow> coord \<Rightarrow> coord \<Rightarrow> accum \<Rightarrow> accum" where
  "sample s sink_width i j acc =
     (let index = j * sink_width + i
      in if transformed_mask s index then
           acc\<lparr>found := found acc + 1,
               red_buf := red_buf acc + real (unat (red (sink_data s index))),
               green_buf := green_buf acc + real (unat (green (sink_data s index))),
               blue_buf := blue_buf acc + real (unat (blue (sink_data s index))),
               alpha_buf := alpha_buf acc + real (unat (alpha (sink_data s index)))\<rparr>
         else acc)"

text \<open>One round of the loop on \<open>radius\<close> (lines 525-566).\<close>

definition search_window ::
  "nat \<Rightarrow> surface \<Rightarrow> coord \<Rightarrow> coord \<Rightarrow> coord \<Rightarrow> coord \<Rightarrow> coord \<Rightarrow> accum \<Rightarrow> accum option" where
  "search_window fuel s sink_width sink_height x y radius acc =
     (let x_min = (if x - radius < 0 then 0 else x - radius);
          x_max = (if x + radius \<ge> sink_width then sink_width - 1 else x + radius);
          y_min = (if y - radius < 0 then 0 else y - radius);
          y_max = (if y + radius \<ge> sink_height then sink_height - 1 else y + radius)
      in case step_loop fuel x_min x_max (x_max - x_min)
                (\<lambda>i. for_loop y_min (y_max + 1) (\<lambda>j. sample s sink_width i j)) acc of
           None \<Rightarrow> None
         | Some acc' \<Rightarrow>
             step_loop fuel y_min y_max (y_max - y_min)
               (\<lambda>j. for_loop x_min (x_max + 1) (\<lambda>i. sample s sink_width i j)) acc')"

text \<open>\<^verbatim>\<open>for (radius = 1; !count; radius++)\<close>; \<open>fuel\<close> is handed to the loops inside.\<close>

fun radius_loop ::
  "nat \<Rightarrow> nat \<Rightarrow> surface \<Rightarrow> coord \<Rightarrow> coord \<Rightarrow> coord \<Rightarrow> coord \<Rightarrow> coord \<Rightarrow> accum \<Rightarrow> accum option" where
  "radius_loop 0 fuel s sink_width sink_height x y radius acc =
     (if found acc = 0 then None else Some acc)"
| "radius_loop (Suc f) fuel s sink_width sink_height x y radius acc =
     (if found acc = 0 then
        (case search_window fuel s sink_width sink_height x y radius acc of
           None \<Rightarrow> None
         | Some acc' \<Rightarrow> radius_loop f fuel s sink_width sink_height x y (radius + 1) acc')
      else Some acc)"

text \<open>
  \<^verbatim>\<open>(char)red_buf\<close>: the conversion drops the fraction; the byte is stored in an
  \<open>unsigned char\<close>.
\<close>

definition to_char :: "real \<Rightarrow> 8 word" where
  "to_char v = word_of_int (if 0 \<le> v then \<lfloor>v\<rfloor> else \<lceil>v\<rceil>)"

definition mean_color :: "accum \<Rightarrow> color" where
  "mean_color acc =
     \<lparr>blue = to_char (blue_buf acc / real_of_int (found acc)),
      green = to_char (green_buf acc / real_of_int (found acc)),
      red = to_char (red_buf acc / real_of_int (found acc)),
      alpha = to_char (alpha_buf acc / real_of_int (found acc))\<rparr>"

text \<open>The body of the second pair of loops for a cell that is not marked (lines 515-577).\<close>

definition fill_pixel :: "nat \<Rightarrow> surface \<Rightarrow> coord \<Rightarrow> coord \<Rightarrow> coord \<Rightarrow> coord \<Rightarrow> surface option" where
  "fill_pixel fuel s sink_width sink_height x y =
     (case radius_loop fuel fuel s sink_width sink_height x y 1
             \<lparr>found = 0, red_buf = 0, green_buf = 0, blue_buf = 0, alpha_buf = 0\<rparr> of
        None \<Rightarrow> None
      | Some acc \<Rightarrow> Some (s\<lparr>sink_data := (sink_data s)(y * sink_width + x := mean_color acc)\<rparr>))"

definition gap_step :: "nat \<Rightarrow> coord \<Rightarrow> coord \<Rightarrow> coord \<Rightarrow> coord \<Rightarrow> surface \<Rightarrow> surface option" where
  "gap_step fuel sink_width sink_height x y s =
     (if \<not> transformed_mask s (y * sink_width + x) then fill_pixel fuel s sink_width sink_height x y
      else Some s)"

definition gap_pass :: "nat \<Rightarrow> coord \<Rightarrow> coord \<Rightarrow> surface \<Rightarrow> surface option" where
  "gap_pass fuel sink_width sink_height s =
     for_loop_opt 0 sink_width
       (\<lambda>x. for_loop_opt 0 sink_height (gap_step fuel sink_width sink_height x)) s"

text \<open>The division of C on \<open>int\<close>: the quotient is cut towards zero.\<close>

definition c_div :: "int \<Rightarrow> int \<Rightarrow> int" where
  "c_div a b = sgn a * sgn b * (\<bar>a\<bar> div \<bar>b\<bar>)"

text \<open>
  What a call of \<open>perspector\<close> does: it returns its status, with the destination raster
  as it has left it and the number of cells it has asked of \<open>calloc\<close> (\<open>None\<close> when it has
  not called \<open>calloc\<close>); or it divides by zero; or it does not return. Whether \<open>calloc\<close>
  gives memory is the parameter \<open>calloc_ok\<close>.
\<close>

datatype run = Returned bool "int \<Rightarrow> color" "int option" | Division_By_Zero | Never_Returns

definition perspector ::
  "qsort_fn \<Rightarrow> svd_fn \<Rightarrow> bool \<Rightarrow> nat \<Rightarrow> (int \<Rightarrow> color) \<Rightarrow> coord \<Rightarrow> coord
     \<Rightarrow> (int \<Rightarrow> color) \<Rightarrow> coord \<Rightarrow> coord \<Rightarrow> pixelset \<Rightarrow> run" where
  "perspector qs svd calloc_ok fuel sink sink_width sink_height bg_data bg_width bg_height anchors =
     (case make_transform_matrix qs svd anchors sink_width sink_height of
        None \<Rightarrow> Returned False sink None
      | Some transform_matrix \<Rightarrow>
          if sink_width = 0 then Division_By_Zero
          else if c_div COORD_MAX sink_width < sink_height then Returned False sink None
          else if \<not> calloc_ok then Returned False sink (Some (wrap32 (sink_width * sink_height)))
          else
            case gap_pass fuel sink_width sink_height
                   (forward_pass transform_matrix sink_width sink_height bg_data bg_width bg_height
                      \<lparr>sink_data = sink, transformed_mask = (\<lambda>_. False)\<rparr>) of
              None \<Rightarrow> Never_Returns
            | Some s \<Rightarrow> Returned True (sink_data s) (Some (wrap32 (sink_width * sink_height))))"

section \<open>Notions used by the statements\<close>

text \<open>
  Coordinates for which the differences taken by \<open>comparex\<close> and \<open>comparey\<close> stay
  inside the range of \<open>int\<close> in C, so that no wrap-around happens.
\<close>

definition coord_small :: "pixel \<Rightarrow> bool" where
  "coord_small p \<longleftrightarrow>
     - 1073741824 \<le> px p \<and> px p < 1073741824 \<and> - 1073741824 \<le> py p \<and> py p < 1073741824"

text \<open>The two sorted copies that \<open>projectable\<close> makes of the anchors.\<close>

abbreviation xsorted_of :: "qsort_fn \<Rightarrow> pixelset \<Rightarrow> pixel list" where
  "xsorted_of qs a \<equiv> pixels (psort qs a DIR_X)"

abbreviation ysorted_of :: "qsort_fn \<Rightarrow> pixelset \<Rightarrow> pixel list" where
  "ysorted_of qs a \<equiv> pixels (psort qs a DIR_Y)"

text \<open>
  A list is a rotation of another; the corner sequence (bl, br, tr, tl) of a
  rectangle; a candidate passes when its split is strict and its corner sequence is a
  rotation of the angular order. These follow the words of the specification and are
  compared with \<open>x_ok\<close> and \<open>y_ok\<close> of the program.
\<close>

definition rotation_of :: "'a list \<Rightarrow> 'a list \<Rightarrow> bool" where
  "rotation_of ys xs \<longleftrightarrow> (\<exists>k\<in>{0..<length xs}. ys = rotate k xs)"




text \<open>
  The source pixels in the order of the first pair of loops: \<open>x\<close> in the outer loop,
  \<open>y\<close> in the inner loop, both upwards. The same list, for the destination, is the order
  of the second pair of loops.
\<close>

definition scan :: "coord \<Rightarrow> coord \<Rightarrow> (coord \<times> coord) list" where
  "scan w h = concat (map (\<lambda>x. map (Pair x) [0..h - 1]) [0..w - 1])"


text \<open>A loop over a list with a body that may not return.\<close>

fun fold_opt :: "('a \<Rightarrow> 's \<Rightarrow> 's option) \<Rightarrow> 'a list \<Rightarrow> 's \<Rightarrow> 's option" where
  "fold_opt f [] s = Some s"
| "fold_opt f (v # vs) s = (case f v s of None \<Rightarrow> None | Some s' \<Rightarrow> fold_opt f vs s')"

text \<open>The accumulators at the start of a search (line 521-522).\<close>

definition no_accum :: accum where
  "no_accum = \<lparr>found = 0, red_buf = 0, green_buf = 0, blue_buf = 0, alpha_buf = 0\<rparr>"

text \<open>
  Two surfaces with the same mask and the same colors in the marked cells.
\<close>

definition agree_on_marked :: "surface \<Rightarrow> surface \<Rightarrow> bool" where
  "agree_on_marked s t \<longleftrightarrow>
     transformed_mask t = transformed_mask s
     \<and> (\<forall>k. transformed_mask s k \<longrightarrow> sink_data t k = sink_data s k)"

text \<open>
  Twice the signed area of a triangle; it is zero exactly for three points on a line
  (\<open>collinear3\<close>).
\<close>

definition cross3 :: "real \<Rightarrow> real \<Rightarrow> real \<Rightarrow> real \<Rightarrow> real \<Rightarrow> real \<Rightarrow> real" where
  "cross3 x1 y1 x2 y2 x3 y3 = (x2 - x1) * (y3 - y1) - (y2 - y1) * (x3 - x1)"

section \<open>Concrete inputs\<close>

text \<open>Anchor sets of the program's tests and others used below.\<close>

definition unit_square :: pixelset where
  "unit_square =
     \<lparr>pixels = [\<lparr>px = 0, py = 0\<rparr>, \<lparr>px = 1, py = 0\<rparr>, \<lparr>px = 1, py = 1\<rparr>, \<lparr>px = 0, py = 1\<rparr>],
      count_px = 4\<rparr>"

definition anchors_on_axis :: pixelset where
  "anchors_on_axis =
     \<lparr>pixels = [\<lparr>px = 0, py = 1\<rparr>, \<lparr>px = 0, py = - 1\<rparr>, \<lparr>px = 1, py = 0\<rparr>, \<lparr>px = 2, py = 0\<rparr>],
      count_px = 4\<rparr>"

definition anchors_mid_y :: pixelset where
  "anchors_mid_y =
     \<lparr>pixels = [\<lparr>px = 0, py = 1\<rparr>, \<lparr>px = 1, py = 1\<rparr>, \<lparr>px = 2, py = 0\<rparr>, \<lparr>px = 2, py = 2\<rparr>],
      count_px = 4\<rparr>"



definition anchors_aligned :: pixelset where
  "anchors_aligned =
     \<lparr>pixels = [\<lparr>px = 0, py = 0\<rparr>, \<lparr>px = 1, py = 1\<rparr>, \<lparr>px = 2, py = 3\<rparr>, \<lparr>px = 3, py = 2\<rparr>],
      count_px = 4\<rparr>"

definition anchors_three_aligned :: pixelset where
  "anchors_three_aligned =
     \<lparr>pixels = [\<lparr>px = 0, py = 0\<rparr>, \<lparr>px = 2, py = 0\<rparr>, \<lparr>px = 2, py = 2\<rparr>, \<lparr>px = 1, py = 1\<rparr>],
      count_px = 4\<rparr>"

text \<open>Rasters and surfaces for concrete runs.\<close>

definition blank :: color where
  "blank = \<lparr>blue = 0, green = 0, red = 0, alpha = 0\<rparr>"

definition numbered :: "int \<Rightarrow> color" where
  "numbered k = \<lparr>blue = word_of_int k, green = 0, red = 0, alpha = 0\<rparr>"


definition corner_marked :: surface where
  "corner_marked = \<lparr>sink_data = (\<lambda>k. numbered (k + 40)), transformed_mask = (\<lambda>k. k = 0)\<rparr>"

section \<open>Facts about the sorting routine\<close>

lemma wrap32_id: "- 2147483648 \<le> v \<Longrightarrow> v < 2147483648 \<Longrightarrow> wrap32 v = v"
  by (simp add: wrap32_def)

lemma comparex_small: "coord_small a \<Longrightarrow> coord_small b \<Longrightarrow> comparex a b = px a - px b"
  by (simp add: comparex_def coord_small_def wrap32_id)

lemma comparey_small: "coord_small a \<Longrightarrow> coord_small b \<Longrightarrow> comparey a b = py a - py b"
  by (simp add: comparey_def coord_small_def wrap32_id)

lemma consistent_comparex: "\<forall>p\<in>S. coord_small p \<Longrightarrow> consistent_on comparex S"
  unfolding consistent_on_def by (auto simp: comparex_small)

lemma consistent_comparey: "\<forall>p\<in>S. coord_small p \<Longrightarrow> consistent_on comparey S"
  unfolding consistent_on_def by (auto simp: comparey_small)








section \<open>The anchor classifier\<close>

lemma list4: "length xs = 4 \<Longrightarrow> \<exists>p0 p1 p2 p3. xs = [p0, p1, p2, p3]"
  by (auto simp: length_Suc_conv eval_nat_numeral)

lemma psort_mset:
  assumes "qsort_contract qs" "length (pixels a) = 4" "count_px a = 4"
  shows "mset (pixels (psort qs a d)) = mset (pixels a)"
  using assms unfolding psort_def qsort_contract_def by simp

lemma psort_length:
  assumes "qsort_contract qs" "length (pixels a) = 4" "count_px a = 4"
  shows "length (pixels (psort qs a d)) = 4"
  using psort_mset[OF assms, of d] assms(2) by (metis size_mset)

lemma psort_x_sorted:
  assumes "qsort_contract qs" "length (pixels a) = 4" "count_px a = 4"
    and "\<forall>p\<in>set (pixels a). coord_small p"
  shows "sorted_wrt (\<lambda>p q. px p \<le> px q) (pixels (psort qs a DIR_X))"
proof -
  have "consistent_on comparex (set (pixels a))"
    using assms(4) by (rule consistent_comparex)
  then have "sorted_wrt (\<lambda>p q. comparex p q \<le> 0) (qs comparex (pixels a))"
    using assms(1) unfolding qsort_contract_def by blast
  moreover have "set (qs comparex (pixels a)) = set (pixels a)"
    using assms(1) unfolding qsort_contract_def by (metis set_mset_mset)
  ultimately have "sorted_wrt (\<lambda>p q. px p \<le> px q) (qs comparex (pixels a))"
    using assms(4) by (auto simp: comparex_small elim!: sorted_wrt_mono_rel[rotated])
  then show ?thesis using assms(2,3) by (simp add: psort_def)
qed

lemma psort_y_sorted:
  assumes "qsort_contract qs" "length (pixels a) = 4" "count_px a = 4"
    and "\<forall>p\<in>set (pixels a). coord_small p"
  shows "sorted_wrt (\<lambda>p q. py p \<le> py q) (pixels (psort qs a DIR_Y))"
proof -
  have "consistent_on comparey (set (pixels a))"
    using assms(4) by (rule consistent_comparey)
  then have "sorted_wrt (\<lambda>p q. comparey p q \<le> 0) (qs comparey (pixels a))"
    using assms(1) unfolding qsort_contract_def by blast
  moreover have "set (qs comparey (pixels a)) = set (pixels a)"
    using assms(1) unfolding qsort_contract_def by (metis set_mset_mset)
  ultimately have "sorted_wrt (\<lambda>p q. py p \<le> py q) (qs comparey (pixels a))"
    using assms(4) by (auto simp: comparey_small elim!: sorted_wrt_mono_rel[rotated])
  then show ?thesis using assms(2,3) by (simp add: psort_def)
qed

lemma psort_x_values:
  assumes "qsort_contract qs" "length (pixels a) = 4" "count_px a = 4"
    and "\<forall>p\<in>set (pixels a). coord_small p"
  shows "map px (pixels (psort qs a DIR_X)) = sort (map px (pixels a))"
proof -
  have "sorted (map px (pixels (psort qs a DIR_X)))"
    using psort_x_sorted[OF assms] by (simp add: sorted_map)
  moreover have "mset (map px (pixels (psort qs a DIR_X))) = mset (map px (pixels a))"
    using psort_mset[OF assms(1-3), of DIR_X] by (metis mset_map)
  ultimately show ?thesis by (metis properties_for_sort)
qed

lemma psort_y_values:
  assumes "qsort_contract qs" "length (pixels a) = 4" "count_px a = 4"
    and "\<forall>p\<in>set (pixels a). coord_small p"
  shows "map py (pixels (psort qs a DIR_Y)) = sort (map py (pixels a))"
proof -
  have "sorted (map py (pixels (psort qs a DIR_Y)))"
    using psort_y_sorted[OF assms] by (simp add: sorted_map)
  moreover have "mset (map py (pixels (psort qs a DIR_Y))) = mset (map py (pixels a))"
    using psort_mset[OF assms(1-3), of DIR_Y] by (metis mset_map)
  ultimately show ?thesis by (metis properties_for_sort)
qed

lemma nth_map4: "length xs = 4 \<Longrightarrow> i < 4 \<Longrightarrow> f (xs ! i) = map f xs ! i"
  by simp

text \<open>
  The part of the degenerate split that the program has: when the two middle x-values of
  the sorted copy are equal, classification fails.
\<close>

lemma middle_x_equal_fails:
  assumes "px (xsorted_of qs anchors ! 1) = px (xsorted_of qs anchors ! 2)"
  shows "projectable qs anchors = None"
  using assms by (simp add: projectable_def direct_case_def)

text \<open>
  The first branch asks that the y-values of the x-high pair differ (line 202) and does
  not ask it of the x-low pair, as the guard of the x-split in the last branch does
  (lines 270-272). For the anchors (0,1), (1,1), (2,0), (2,2) every routine that keeps
  the contract of \<open>qsort\<close> gives the same rectangle.
\<close>

lemma middle_y_aligned_any_qsort:
  assumes "qsort_contract qs"
  shows "projectable qs anchors_mid_y
       = Some \<lparr>bl = \<lparr>px = 1, py = 1\<rparr>, br = \<lparr>px = 2, py = 0\<rparr>,
               tr = \<lparr>px = 2, py = 2\<rparr>, tl_corner = \<lparr>px = 0, py = 1\<rparr>\<rparr>"
proof -
  define a b c d :: pixel where "a = \<lparr>px = 0, py = 1\<rparr>" and "b = \<lparr>px = 1, py = 1\<rparr>"
    and "c = \<lparr>px = 2, py = 0\<rparr>" and "d = \<lparr>px = 2, py = 2\<rparr>"
  have v: "px a = 0" "px b = 1" "px c = 2" "px d = 2" "py a = 1" "py b = 1" "py c = 0" "py d = 2"
    by (simp_all add: a_def b_def c_def d_def)
  have an: "pixels anchors_mid_y = [a, b, c, d]" "count_px anchors_mid_y = 4"
    by (simp_all add: anchors_mid_y_def a_def b_def c_def d_def)
  have l: "length (pixels anchors_mid_y) = 4" using an by simp
  have sm: "\<forall>p\<in>set (pixels anchors_mid_y). coord_small p"
    unfolding an by (simp add: coord_small_def v)
  obtain p0 p1 p2 p3 where xs: "xsorted_of qs anchors_mid_y = [p0, p1, p2, p3]"
    using list4[OF psort_length[OF assms l an(2), of DIR_X]] by blast
  have m: "mset [p0, p1, p2, p3] = mset [a, b, c, d]"
    using psort_mset[OF assms l an(2), of DIR_X] xs an(1) by simp
  have s: "px p0 \<le> px p1" "px p1 \<le> px p2" "px p2 \<le> px p3" "px p0 \<le> px p2" "px p0 \<le> px p3"
    "px p1 \<le> px p3"
    using psort_x_sorted[OF assms l an(2) sm] xs by simp_all
  have st: "{p0, p1, p2, p3} = {a, b, c, d}"
    using mset_eq_setD[OF m] by simp
  have d4: "distinct [p0, p1, p2, p3]"
    using mset_eq_imp_distinct_iff[OF m] v by auto
  have ina: "a \<in> {p0, p1, p2, p3}" and inb: "b \<in> {p0, p1, p2, p3}" using st by auto
  have m0: "p0 \<in> {a, b, c, d}" and m1: "p1 \<in> {a, b, c, d}"
    and m2: "p2 \<in> {a, b, c, d}" and m3: "p3 \<in> {a, b, c, d}" using st by auto
  have "px p0 \<le> 0" using ina s v(1) by auto
  then have e0: "p0 = a" using m0 v by auto
  have "b \<in> {p1, p2, p3}" using inb e0 v by auto
  then have "px p1 \<le> 1" using s v(2) by auto
  then have e1: "p1 = b" using m1 e0 d4 v by auto
  have "p2 \<in> {c, d}" "p3 \<in> {c, d}" "p2 \<noteq> p3" using m2 m3 d4 e0 e1 by auto
  then have e23: "(p2 = c \<and> p3 = d) \<or> (p2 = d \<and> p3 = c)" by auto
  have "direct_case [a, b, p2, p3]" using e23 v by (auto simp: direct_case_def)
  moreover have "x_split [a, b, p2, p3] = \<lparr>bl = b, br = c, tr = d, tl_corner = a\<rparr>"
    using e23 v by (auto simp: x_split_def)
  ultimately show ?thesis
    unfolding projectable_def Let_def xs e0 e1 by (simp add: a_def b_def c_def d_def)
qed

text \<open>
  The mirror image of these anchors (x to 2 - x, y to y - 1) is the case
  \<open>Middle pair aligned on X\<close> of the program's tests, which expects a rejection and
  gets it.
\<close>

lemma mirrored_anchors_rejected:
  "pixels anchors_on_axis
     = map (\<lambda>p. \<lparr>px = 2 - px p, py = py p - 1\<rparr>)
         [\<lparr>px = 2, py = 2\<rparr>, \<lparr>px = 2, py = 0\<rparr>, \<lparr>px = 1, py = 1\<rparr>, \<lparr>px = 0, py = 1\<rparr>]
   \<and> projectable qsort_ref anchors_on_axis = None"
  by code_simp

text \<open>
  C5 holds of the specification and not of the program. The anchors (0,1), (1,1), (2,0),
  (2,2) are distinct and their two middle y-values are equal: two of them lie on the
  axis of the split by y. The claim says that classification fails; the program
  classifies them by its first branch and returns a rectangle.
\<close>

theorem middle_y_aligned_accepted:
  "distinct (pixels anchors_mid_y)
   \<and> sort (map py (pixels anchors_mid_y)) ! 1 = sort (map py (pixels anchors_mid_y)) ! 2
   \<and> py (ysorted_of qsort_ref anchors_mid_y ! 1) = py (ysorted_of qsort_ref anchors_mid_y ! 2)
   \<and> \<not> x_split_strict (xsorted_of qsort_ref anchors_mid_y)
   \<and> projectable qsort_ref anchors_mid_y
       = Some \<lparr>bl = \<lparr>px = 1, py = 1\<rparr>, br = \<lparr>px = 2, py = 0\<rparr>,
               tr = \<lparr>px = 2, py = 2\<rparr>, tl_corner = \<lparr>px = 0, py = 1\<rparr>\<rparr>"
  by code_simp






lemma position_val_not_undesired: "position_val p \<noteq> UNDESIRED"
  by (cases p) (simp_all add: UNDESIRED_def)

lemma undesired_pair_never: "\<not> undesired_pair bar a b c d"
  by (simp add: undesired_pair_def Let_def position_val_not_undesired)

lemma cmp_pixel_eq: "cmp_pixel ord i k p \<longleftrightarrow> pixels ord ! ((i + k) mod 4) = p"
  by (auto simp: cmp_pixel_def intro: pixel.equality)

lemma find_start_4:
  assumes "count_px ord = 4"
  shows "find_start ord p 0 =
     (if pixels ord ! 0 = p then 0 else if pixels ord ! 1 = p then 1
      else if pixels ord ! 2 = p then 2 else if pixels ord ! 3 = p then 3 else 4)"
proof -
  have f4: "find_start ord p 4 = 4"
    using assms by (subst find_start.simps) simp
  have f3: "find_start ord p 3 = (if pixels ord ! 3 = p then 3 else 4)"
    using assms by (subst find_start.simps) (simp add: cmp_pixel_eq f4)
  have f2: "find_start ord p 2 = (if pixels ord ! 2 = p then 2 else find_start ord p 3)"
    using assms by (subst find_start.simps) (simp add: cmp_pixel_eq)
  have f1: "find_start ord p 1 = (if pixels ord ! 1 = p then 1 else find_start ord p 2)"
  proof -
    have "(1::nat) + 1 = 2" by simp
    then show ?thesis using assms by (subst find_start.simps) (simp only: cmp_pixel_eq, simp)
  qed
  have f0: "find_start ord p 0 = (if pixels ord ! 0 = p then 0 else find_start ord p 1)"
    using assms by (subst find_start.simps) (simp add: cmp_pixel_eq)
  show ?thesis by (simp only: f0 f1 f2 f3)
qed

lemma bex4: "(\<exists>k\<in>{0..<4::nat}. P k) \<longleftrightarrow> P 0 \<or> P 1 \<or> P 2 \<or> P 3"
proof -
  have "{0..<4::nat} = {0, 1, 2, 3}" by auto
  then show ?thesis by simp
qed

lemma rotations_4:
  "rotation_of ys [o0, o1, o2, o3] \<longleftrightarrow>
     ys = [o0, o1, o2, o3] \<or> ys = [o1, o2, o3, o0] \<or> ys = [o2, o3, o0, o1] \<or> ys = [o3, o0, o1, o2]"
proof -
  have l: "length [o0, o1, o2, o3] = 4" by simp
  have r: "rotate 0 [o0, o1, o2, o3] = [o0, o1, o2, o3]" "rotate 1 [o0, o1, o2, o3] = [o1, o2, o3, o0]"
    "rotate 2 [o0, o1, o2, o3] = [o2, o3, o0, o1]" "rotate 3 [o0, o1, o2, o3] = [o3, o0, o1, o2]"
    by (simp_all add: eval_nat_numeral)
  show ?thesis unfolding rotation_of_def l bex4 r ..
qed

lemma check_order_rotation:
  assumes "pixels ord = [o0, o1, o2, o3]" "count_px ord = 4" "distinct [o0, o1, o2, o3]"
    and "b \<in> set [o0, o1, o2, o3]"
  shows "check_order ord b r t l \<longleftrightarrow> rotation_of [b, r, t, l] (pixels ord)"
proof -
  have c: "check_order ord b r t l \<longleftrightarrow>
      (let i = find_start ord b 0 in [o0, o1, o2, o3] ! ((i + 1) mod 4) = r
        \<and> [o0, o1, o2, o3] ! ((i + 2) mod 4) = t \<and> [o0, o1, o2, o3] ! ((i + 3) mod 4) = l)"
    by (simp add: check_order_def cmp_pixel_eq assms(1))
  have f: "find_start ord b 0 = (if o0 = b then 0 else if o1 = b then 1 else if o2 = b then 2 else 3)"
    using assms(4) by (auto simp: find_start_4[OF assms(2)] assms(1))
  consider "b = o0" | "b = o1" | "b = o2" | "b = o3" using assms(4) by auto
  then show ?thesis
  proof cases
    case 1
    then show ?thesis unfolding c f assms(1) rotations_4 using assms(3) by (simp add: Let_def) blast
  next
    case 2
    then show ?thesis unfolding c f assms(1) rotations_4 using assms(3) by (simp add: Let_def) blast
  next
    case 3
    then show ?thesis unfolding c f assms(1) rotations_4 using assms(3) by (simp add: Let_def) blast
  next
    case 4
    then show ?thesis unfolding c f assms(1) rotations_4 using assms(3) by (simp add: Let_def) blast
  qed
qed








text \<open>
  The anchors (0,0), (1,1), (2,3), (3,2): whatever \<open>qsort\<close> does with the two anchors
  that \<open>compare_angle\<close> finds equal, the classification succeeds, with one of two
  rectangles.
\<close>

lemma sorted_perm_unique:
  assumes "mset xs = mset ys" "sorted_wrt (\<lambda>p q. f p \<le> f q) xs"
    and "sorted_wrt (\<lambda>p q. (f p :: int) < f q) ys"
  shows "xs = ys"
proof -
  have sy: "sorted_wrt (\<lambda>p q. f p \<le> f q) ys"
    using assms(3) by (rule sorted_wrt_mono_rel[rotated]) simp
  have "mset (map f xs) = mset (map f ys)" using assms(1) by (metis mset_map)
  moreover have "sorted (map f xs)" "sorted (map f ys)"
    using assms(2) sy by (simp_all add: sorted_map)
  ultimately have m: "map f xs = map f ys" by (metis properties_for_sort)
  have "sorted_wrt (<) (map f ys)" using assms(3) by (simp add: sorted_wrt_map)
  then have "distinct (map f ys)" using strict_sorted_iff by blast
  then have "inj_on f (set ys)" by (simp add: distinct_map)
  moreover have "set xs = set ys" using assms(1) by (metis mset_eq_setD)
  ultimately show ?thesis using m by (simp add: inj_on_map_eq_map)
qed

lemma aligned_sorted:
  assumes "qsort_contract qs"
  shows "xsorted_of qs anchors_aligned
           = [\<lparr>px = 0, py = 0\<rparr>, \<lparr>px = 1, py = 1\<rparr>, \<lparr>px = 2, py = 3\<rparr>, \<lparr>px = 3, py = 2\<rparr>]"
    and "ysorted_of qs anchors_aligned
           = [\<lparr>px = 0, py = 0\<rparr>, \<lparr>px = 1, py = 1\<rparr>, \<lparr>px = 3, py = 2\<rparr>, \<lparr>px = 2, py = 3\<rparr>]"
proof -
  have l: "length (pixels anchors_aligned) = 4" "count_px anchors_aligned = 4"
    and s: "\<forall>p\<in>set (pixels anchors_aligned). coord_small p"
    by (simp_all add: anchors_aligned_def coord_small_def)
  show "xsorted_of qs anchors_aligned
           = [\<lparr>px = 0, py = 0\<rparr>, \<lparr>px = 1, py = 1\<rparr>, \<lparr>px = 2, py = 3\<rparr>, \<lparr>px = 3, py = 2\<rparr>]"
    using psort_mset[OF assms l, of DIR_X] psort_x_sorted[OF assms l s]
    by (intro sorted_perm_unique[where f = px]) (simp_all add: anchors_aligned_def)
  show "ysorted_of qs anchors_aligned
           = [\<lparr>px = 0, py = 0\<rparr>, \<lparr>px = 1, py = 1\<rparr>, \<lparr>px = 3, py = 2\<rparr>, \<lparr>px = 2, py = 3\<rparr>]"
    using psort_mset[OF assms l, of DIR_Y] psort_y_sorted[OF assms l s]
    by (intro sorted_perm_unique[where f = py]) (simp_all add: anchors_aligned_def)
qed

lemma aligned_compare_table:
  "compare_angle \<lparr>px = 0, py = 0\<rparr> \<lparr>ptx = 3 / 2, pty = 3 / 2\<rparr> \<lparr>px = 0, py = 0\<rparr> \<lparr>px = 0, py = 0\<rparr> = 0"
  "compare_angle \<lparr>px = 0, py = 0\<rparr> \<lparr>ptx = 3 / 2, pty = 3 / 2\<rparr> \<lparr>px = 0, py = 0\<rparr> \<lparr>px = 1, py = 1\<rparr> = 0"
  "compare_angle \<lparr>px = 0, py = 0\<rparr> \<lparr>ptx = 3 / 2, pty = 3 / 2\<rparr> \<lparr>px = 0, py = 0\<rparr> \<lparr>px = 2, py = 3\<rparr> = - 1"
  "compare_angle \<lparr>px = 0, py = 0\<rparr> \<lparr>ptx = 3 / 2, pty = 3 / 2\<rparr> \<lparr>px = 0, py = 0\<rparr> \<lparr>px = 3, py = 2\<rparr> = - 1"
  "compare_angle \<lparr>px = 0, py = 0\<rparr> \<lparr>ptx = 3 / 2, pty = 3 / 2\<rparr> \<lparr>px = 1, py = 1\<rparr> \<lparr>px = 0, py = 0\<rparr> = 0"
  "compare_angle \<lparr>px = 0, py = 0\<rparr> \<lparr>ptx = 3 / 2, pty = 3 / 2\<rparr> \<lparr>px = 1, py = 1\<rparr> \<lparr>px = 1, py = 1\<rparr> = 0"
  "compare_angle \<lparr>px = 0, py = 0\<rparr> \<lparr>ptx = 3 / 2, pty = 3 / 2\<rparr> \<lparr>px = 1, py = 1\<rparr> \<lparr>px = 2, py = 3\<rparr> = - 1"
  "compare_angle \<lparr>px = 0, py = 0\<rparr> \<lparr>ptx = 3 / 2, pty = 3 / 2\<rparr> \<lparr>px = 1, py = 1\<rparr> \<lparr>px = 3, py = 2\<rparr> = - 1"
  "compare_angle \<lparr>px = 0, py = 0\<rparr> \<lparr>ptx = 3 / 2, pty = 3 / 2\<rparr> \<lparr>px = 2, py = 3\<rparr> \<lparr>px = 0, py = 0\<rparr> = 1"
  "compare_angle \<lparr>px = 0, py = 0\<rparr> \<lparr>ptx = 3 / 2, pty = 3 / 2\<rparr> \<lparr>px = 2, py = 3\<rparr> \<lparr>px = 1, py = 1\<rparr> = 1"
  "compare_angle \<lparr>px = 0, py = 0\<rparr> \<lparr>ptx = 3 / 2, pty = 3 / 2\<rparr> \<lparr>px = 2, py = 3\<rparr> \<lparr>px = 2, py = 3\<rparr> = 0"
  "compare_angle \<lparr>px = 0, py = 0\<rparr> \<lparr>ptx = 3 / 2, pty = 3 / 2\<rparr> \<lparr>px = 2, py = 3\<rparr> \<lparr>px = 3, py = 2\<rparr> = 1"
  "compare_angle \<lparr>px = 0, py = 0\<rparr> \<lparr>ptx = 3 / 2, pty = 3 / 2\<rparr> \<lparr>px = 3, py = 2\<rparr> \<lparr>px = 0, py = 0\<rparr> = 1"
  "compare_angle \<lparr>px = 0, py = 0\<rparr> \<lparr>ptx = 3 / 2, pty = 3 / 2\<rparr> \<lparr>px = 3, py = 2\<rparr> \<lparr>px = 1, py = 1\<rparr> = 1"
  "compare_angle \<lparr>px = 0, py = 0\<rparr> \<lparr>ptx = 3 / 2, pty = 3 / 2\<rparr> \<lparr>px = 3, py = 2\<rparr> \<lparr>px = 2, py = 3\<rparr> = - 1"
  "compare_angle \<lparr>px = 0, py = 0\<rparr> \<lparr>ptx = 3 / 2, pty = 3 / 2\<rparr> \<lparr>px = 3, py = 2\<rparr> \<lparr>px = 3, py = 2\<rparr> = 0"
  by code_simp+


lemma aligned_barycentre:
  "barycentre \<lparr>px = 0, py = 0\<rparr> \<lparr>px = 1, py = 1\<rparr> \<lparr>px = 2, py = 3\<rparr> \<lparr>px = 3, py = 2\<rparr>
     = \<lparr>ptx = 3 / 2, pty = 3 / 2\<rparr>"
  by (simp add: barycentre_def wrap32_def)

lemma aligned_consistent:
  "consistent_on (compare_angle \<lparr>px = 0, py = 0\<rparr> \<lparr>ptx = 3 / 2, pty = 3 / 2\<rparr>)
     {\<lparr>px = 0, py = 0\<rparr>, \<lparr>px = 1, py = 1\<rparr>, \<lparr>px = 2, py = 3\<rparr>, \<lparr>px = 3, py = 2\<rparr>}"
  unfolding consistent_on_def by (simp add: aligned_compare_table)

lemma aligned_angular_order:
  assumes "qsort_contract qs"
  shows "pixels (angular_order qs anchors_aligned)
           = [\<lparr>px = 0, py = 0\<rparr>, \<lparr>px = 1, py = 1\<rparr>, \<lparr>px = 3, py = 2\<rparr>, \<lparr>px = 2, py = 3\<rparr>]
       \<or> pixels (angular_order qs anchors_aligned)
           = [\<lparr>px = 1, py = 1\<rparr>, \<lparr>px = 0, py = 0\<rparr>, \<lparr>px = 3, py = 2\<rparr>, \<lparr>px = 2, py = 3\<rparr>]"
proof -
  let ?a = "\<lparr>px = 0, py = 0\<rparr>" and ?b = "\<lparr>px = 1, py = 1\<rparr>"
  let ?c = "\<lparr>px = 2, py = 3\<rparr>" and ?d = "\<lparr>px = 3, py = 2\<rparr>"
  let ?cmp = "compare_angle ?a \<lparr>ptx = 3 / 2, pty = 3 / 2\<rparr>"
  let ?ol = "qs ?cmp [?a, ?b, ?c, ?d]"
  have p: "pixels (angular_order qs anchors_aligned) = ?ol"
    by (simp add: angular_order_def anchors_aligned_def aligned_barycentre Let_def)
  have m: "mset ?ol = mset [?a, ?b, ?c, ?d]"
    using assms unfolding qsort_contract_def by blast
  have "consistent_on ?cmp (set [?a, ?b, ?c, ?d])" using aligned_consistent by simp
  then have srt: "sorted_wrt (\<lambda>u v. ?cmp u v \<le> 0) ?ol"
    using assms unfolding qsort_contract_def by blast
  have "size (mset ?ol) = size (mset [?a, ?b, ?c, ?d])" using m by simp
  then have "length ?ol = 4" by simp
  then obtain o0 o1 o2 o3 where ol: "?ol = [o0, o1, o2, o3]" using list4 by blast
  have "distinct ?ol \<longleftrightarrow> distinct [?a, ?b, ?c, ?d]" using m by (rule mset_eq_imp_distinct_iff)
  then have d: "distinct [o0, o1, o2, o3]" unfolding ol by simp
  have "set ?ol = set [?a, ?b, ?c, ?d]" using m by (rule mset_eq_setD)
  then have st: "set [o0, o1, o2, o3] = {?a, ?b, ?c, ?d}" unfolding ol by simp
  have c_last: "?cmp ?c v = 1" if "v \<in> {?a, ?b, ?d}" for v
    using that by (auto simp: aligned_compare_table)
  have d_late: "?cmp ?d v = 1" if "v \<in> {?a, ?b}" for v
    using that by (auto simp: aligned_compare_table)
  have mem: "o0 \<in> {?a, ?b, ?c, ?d}" "o1 \<in> {?a, ?b, ?c, ?d}" "o2 \<in> {?a, ?b, ?c, ?d}"
    "o3 \<in> {?a, ?b, ?c, ?d}"
    using st by auto
  have le: "?cmp o0 o1 \<le> 0" "?cmp o0 o2 \<le> 0" "?cmp o0 o3 \<le> 0" "?cmp o1 o2 \<le> 0"
    "?cmp o1 o3 \<le> 0" "?cmp o2 o3 \<le> 0"
    using srt unfolding ol by simp_all
  have c_in: "?c = o0 \<or> ?c = o1 \<or> ?c = o2 \<or> ?c = o3" using st by auto
  have d_in: "?d = o0 \<or> ?d = o1 \<or> ?d = o2 \<or> ?d = o3" using st by auto
  have o3: "o3 = ?c"
  proof (rule ccontr)
    assume n: "o3 \<noteq> ?c"
    then have "o3 \<in> {?a, ?b, ?d}" using mem(4) by auto
    then have "?cmp ?c o3 = 1" by (rule c_last)
    moreover have "?cmp ?c o3 \<le> 0" using c_in n le(3,5,6) by auto
    ultimately show False by simp
  qed
  have o2: "o2 = ?d"
  proof (rule ccontr)
    assume n: "o2 \<noteq> ?d"
    have "o2 \<noteq> ?c" using d o3 by auto
    then have "o2 \<in> {?a, ?b}" using mem(3) n by auto
    then have "?cmp ?d o2 = 1" by (rule d_late)
    moreover have "?d = o0 \<or> ?d = o1" using d_in n o3 by auto
    then have "?cmp ?d o2 \<le> 0" using le(2,4) by auto
    ultimately show False by simp
  qed
  have "o0 \<in> {?a, ?b}" "o1 \<in> {?a, ?b}" "o0 \<noteq> o1"
    using mem(1,2) d o2 o3 by auto
  then have "(o0 = ?a \<and> o1 = ?b) \<or> (o0 = ?b \<and> o1 = ?a)" by auto
  then show ?thesis unfolding p ol o2 o3 by auto
qed


lemma aligned_pair_accepted_any_qsort:
  assumes "qsort_contract qs"
  shows "projectable qs anchors_aligned
           = Some \<lparr>bl = \<lparr>px = 0, py = 0\<rparr>, br = \<lparr>px = 1, py = 1\<rparr>,
                   tr = \<lparr>px = 3, py = 2\<rparr>, tl_corner = \<lparr>px = 2, py = 3\<rparr>\<rparr>
       \<or> projectable qs anchors_aligned
           = Some \<lparr>bl = \<lparr>px = 0, py = 0\<rparr>, br = \<lparr>px = 3, py = 2\<rparr>,
                   tr = \<lparr>px = 2, py = 3\<rparr>, tl_corner = \<lparr>px = 1, py = 1\<rparr>\<rparr>"
proof -
  let ?a = "\<lparr>px = 0, py = 0\<rparr>" and ?b = "\<lparr>px = 1, py = 1\<rparr>"
  let ?c = "\<lparr>px = 2, py = 3\<rparr>" and ?d = "\<lparr>px = 3, py = 2\<rparr>"
  let ?ord = "angular_order qs anchors_aligned"
  note xs = aligned_sorted(1)[OF assms] and ys = aligned_sorted(2)[OF assms]
  have cnt: "count_px ?ord = 4" by (simp add: angular_order_def Let_def)
  have xsp: "x_split [?a, ?b, ?c, ?d] = \<lparr>bl = ?a, br = ?d, tr = ?c, tl_corner = ?b\<rparr>"
    and ysp: "y_split [?a, ?b, ?d, ?c] = \<lparr>bl = ?a, br = ?b, tr = ?d, tl_corner = ?c\<rparr>"
    by (simp_all add: x_split_def y_split_def)
  have str: "x_split_strict [?a, ?b, ?c, ?d]" "y_split_strict [?a, ?b, ?d, ?c]"
    by (simp_all add: x_split_strict_def y_split_strict_def)
  have p: "projectable qs anchors_aligned =
      (if y_ok ?ord [?a, ?b, ?d, ?c] \<and> \<not> x_ok ?ord [?a, ?b, ?c, ?d]
         then Some (y_split [?a, ?b, ?d, ?c])
       else if \<not> y_ok ?ord [?a, ?b, ?d, ?c] \<and> x_ok ?ord [?a, ?b, ?c, ?d]
         then Some (x_split [?a, ?b, ?c, ?d])
       else None)"
    unfolding projectable_def xs ys
    by (simp add: direct_case_def diagonal_case_def undesired_pair_never Let_def)
  from aligned_angular_order[OF assms] show ?thesis
  proof
    assume o: "pixels ?ord = [?a, ?b, ?d, ?c]"
    have "y_ok ?ord [?a, ?b, ?d, ?c]" "\<not> x_ok ?ord [?a, ?b, ?c, ?d]"
      unfolding y_ok_def x_ok_def xsp ysp
      by (simp_all add: str check_order_rotation[OF o cnt] o rotations_4)
    then show ?thesis unfolding p ysp by simp
  next
    assume o: "pixels ?ord = [?b, ?a, ?d, ?c]"
    have "\<not> y_ok ?ord [?a, ?b, ?d, ?c]" "x_ok ?ord [?a, ?b, ?c, ?d]"
      unfolding y_ok_def x_ok_def xsp ysp
      by (simp_all add: str check_order_rotation[OF o cnt] o rotations_4)
    then show ?thesis unfolding p xsp by simp
  qed
qed

text \<open>
  C4 at the anchors (0,0), (1,1), (2,3), (3,2): they reach the last branch, the vectors
  from the barycentre (3/2, 3/2) to (0,0) and to (1,1) are \<open>EQUAL\<close>, and the
  classification succeeds. The test of lines 249-254 compares each value of \<open>pos\<close>
  with \<open>EQUAL | OPPOSED | UNDEF\<close>, which is 28 and is the value of no position
  (\<open>undesired_pair_never\<close>). With another \<open>qsort\<close> the rectangle may be the other
  one of \<open>aligned_pair_accepted_any_qsort\<close>; the classification succeeds all the same.
\<close>

theorem aligned_pair_accepted:
  "\<not> direct_case (xsorted_of qsort_ref anchors_aligned)
   \<and> px (xsorted_of qsort_ref anchors_aligned ! 1) \<noteq> px (xsorted_of qsort_ref anchors_aligned ! 2)
   \<and> py (ysorted_of qsort_ref anchors_aligned ! 1) \<noteq> py (ysorted_of qsort_ref anchors_aligned ! 2)
   \<and> pos (rel_to (barycentre \<lparr>px = 0, py = 0\<rparr> \<lparr>px = 1, py = 1\<rparr> \<lparr>px = 2, py = 3\<rparr> \<lparr>px = 3, py = 2\<rparr>) \<lparr>px = 0, py = 0\<rparr>)
          (rel_to (barycentre \<lparr>px = 0, py = 0\<rparr> \<lparr>px = 1, py = 1\<rparr> \<lparr>px = 2, py = 3\<rparr> \<lparr>px = 3, py = 2\<rparr>) \<lparr>px = 1, py = 1\<rparr>) = EQUAL
   \<and> projectable qsort_ref anchors_aligned
       = Some \<lparr>bl = \<lparr>px = 0, py = 0\<rparr>, br = \<lparr>px = 1, py = 1\<rparr>,
               tr = \<lparr>px = 3, py = 2\<rparr>, tl_corner = \<lparr>px = 2, py = 3\<rparr>\<rparr>"
  by code_simp

section \<open>The homography estimator\<close>

lemma upt_9: "[0..<9] = [0, 1, 2, 3, 4, 5, 6, 7, 8]"
  by code_simp

lemma c_round_of_int: "c_round (real_of_int n) = n"
proof -
  have "\<lfloor>real_of_int n + 1 / 2\<rfloor> = n" "\<lfloor>- real_of_int n + 1 / 2\<rfloor> = - n"
    by (simp_all add: floor_eq_iff)
  then show ?thesis by (simp add: c_round_def)
qed

text \<open>\<open>c_round\<close> rounds to a nearest integer, and a half away from zero.\<close>

lemma c_round_nearest: "\<bar>real_of_int (c_round v) - v\<bar> \<le> 1 / 2"
proof (cases "0 \<le> v")
  case True
  have f: "real_of_int \<lfloor>v + 1 / 2\<rfloor> \<le> v + 1 / 2" "v + 1 / 2 < real_of_int \<lfloor>v + 1 / 2\<rfloor> + 1"
    by linarith+
  have "c_round v = \<lfloor>v + 1 / 2\<rfloor>" using True by (simp add: c_round_def)
  then show ?thesis using f by linarith
next
  case False
  have f: "real_of_int \<lfloor>- v + 1 / 2\<rfloor> \<le> - v + 1 / 2" "- v + 1 / 2 < real_of_int \<lfloor>- v + 1 / 2\<rfloor> + 1"
    by linarith+
  have "real_of_int (c_round v) = - real_of_int \<lfloor>- v + 1 / 2\<rfloor>"
    using False by (simp add: c_round_def)
  then show ?thesis using f by linarith
qed

lemma c_round_half_away:
  "c_round (real_of_int n + 1 / 2) = (if 0 \<le> n then n + 1 else n)"
proof (cases "0 \<le> n")
  case True
  have "\<lfloor>real_of_int n + 1 / 2 + 1 / 2\<rfloor> = n + 1" by (simp add: floor_eq_iff)
  with True show ?thesis by (simp add: c_round_def)
next
  case False
  then have "\<not> 0 \<le> real_of_int n + 1 / 2" by (simp add: not_le)
  moreover have "\<lfloor>- (real_of_int n + 1 / 2) + 1 / 2\<rfloor> = - n" by (simp add: floor_eq_iff)
  ultimately show ?thesis using False by (simp add: c_round_def)
qed

lemma four_points_dependent:
  fixes a b c :: real
  shows "cross3 x2 y2 x3 y3 x4 y4 * (a * x1 + b * y1 + c)
       - cross3 x1 y1 x3 y3 x4 y4 * (a * x2 + b * y2 + c)
       + cross3 x1 y1 x2 y2 x4 y4 * (a * x3 + b * y3 + c)
       - cross3 x1 y1 x2 y2 x3 y3 * (a * x4 + b * y4 + c) = 0"
  by (simp add: cross3_def algebra_simps)

lemma functional_zero:
  fixes a b c :: real
  assumes "cross3 x1 y1 x2 y2 x3 y3 \<noteq> 0"
    and "a * x1 + b * y1 + c = 0" "a * x2 + b * y2 + c = 0" "a * x3 + b * y3 + c = 0"
  shows "a = 0 \<and> b = 0 \<and> c = 0"
proof -
  let ?d = "cross3 x1 y1 x2 y2 x3 y3"
  have "?d * a = (a * x1 + b * y1 + c) * (y2 - y3) + (a * x2 + b * y2 + c) * (y3 - y1)
                  + (a * x3 + b * y3 + c) * (y1 - y2)"
    by (simp add: cross3_def algebra_simps)
  then have a: "a = 0" using assms by simp
  have "?d * b = (a * x1 + b * y1 + c) * (x3 - x2) + (a * x2 + b * y2 + c) * (x1 - x3)
                  + (a * x3 + b * y3 + c) * (x2 - x1)"
    by (simp add: cross3_def algebra_simps)
  then have b: "b = 0" using assms by simp
  from a b assms(2) show ?thesis by simp
qed

lemma scaled_difference:
  fixes w :: real
  assumes "d0 * 0 - d1 * (w * u) + d2 * (w * v) - d3 * 0 = 0" "w \<noteq> 0"
  shows "d1 * u = d2 * v"
proof -
  have "w * (d2 * v - d1 * u) = 0" using assms(1) by (simp add: algebra_simps)
  then show ?thesis using assms(2) by simp
qed

lemma scaled_difference2:
  fixes h :: real
  assumes "d0 * 0 - d1 * 0 + d2 * (h * u) - d3 * (h * v) = 0" "h \<noteq> 0"
  shows "d2 * u = d3 * v"
proof -
  have "h * (d2 * u - d3 * v) = 0" using assms(1) by (simp add: algebra_simps)
  then show ?thesis using assms(2) by simp
qed

lemma dlt_denominators:
  fixes m0 m1 m2 m3 m4 m5 m6 m7 m8 w h :: real
  assumes e0: "m0 * x1 + m1 * y1 + m2 = 0"
    and e1: "m3 * x1 + m4 * y1 + m5 = 0"
    and e2: "m0 * x2 + m1 * y2 + m2 = w * (m6 * x2 + m7 * y2 + m8)"
    and e3: "m3 * x2 + m4 * y2 + m5 = 0"
    and e4: "m0 * x3 + m1 * y3 + m2 = w * (m6 * x3 + m7 * y3 + m8)"
    and e5: "m3 * x3 + m4 * y3 + m5 = h * (m6 * x3 + m7 * y3 + m8)"
    and e6: "m0 * x4 + m1 * y4 + m2 = 0"
    and e7: "m3 * x4 + m4 * y4 + m5 = h * (m6 * x4 + m7 * y4 + m8)"
    and w: "w \<noteq> 0" and h: "h \<noteq> 0"
    and d123: "cross3 x1 y1 x2 y2 x3 y3 \<noteq> 0"
    and d124: "cross3 x1 y1 x2 y2 x4 y4 \<noteq> 0"
    and d134: "cross3 x1 y1 x3 y3 x4 y4 \<noteq> 0"
    and d234: "cross3 x2 y2 x3 y3 x4 y4 \<noteq> 0"
    and nz: "\<not> (m0 = 0 \<and> m1 = 0 \<and> m2 = 0 \<and> m3 = 0 \<and> m4 = 0 \<and> m5 = 0 \<and> m6 = 0 \<and> m7 = 0 \<and> m8 = 0)"
  shows "m6 * x1 + m7 * y1 + m8 \<noteq> 0 \<and> m6 * x2 + m7 * y2 + m8 \<noteq> 0
       \<and> m6 * x3 + m7 * y3 + m8 \<noteq> 0 \<and> m6 * x4 + m7 * y4 + m8 \<noteq> 0"
proof -
  let ?W1 = "m6 * x1 + m7 * y1 + m8" and ?W2 = "m6 * x2 + m7 * y2 + m8"
  let ?W3 = "m6 * x3 + m7 * y3 + m8" and ?W4 = "m6 * x4 + m7 * y4 + m8"
  let ?D123 = "cross3 x1 y1 x2 y2 x3 y3" and ?D124 = "cross3 x1 y1 x2 y2 x4 y4"
  let ?D134 = "cross3 x1 y1 x3 y3 x4 y4" and ?D234 = "cross3 x2 y2 x3 y3 x4 y4"
  have "?D234 * 0 - ?D134 * (w * ?W2) + ?D124 * (w * ?W3) - ?D123 * 0 = 0"
    using four_points_dependent[of x2 y2 x3 y3 x4 y4 m0 x1 m1 y1 m2] unfolding e0 e2 e4 e6 .
  then have k1: "?D134 * ?W2 = ?D124 * ?W3" by (rule scaled_difference[OF _ w])
  have "?D234 * 0 - ?D134 * 0 + ?D124 * (h * ?W3) - ?D123 * (h * ?W4) = 0"
    using four_points_dependent[of x2 y2 x3 y3 x4 y4 m3 x1 m4 y1 m5] unfolding e1 e3 e5 e7 .
  then have k2: "?D124 * ?W3 = ?D123 * ?W4" by (rule scaled_difference2[OF _ h])
  have "?D234 * ?W1 - ?D134 * ?W2 + ?D124 * ?W3 - ?D123 * ?W4 = 0"
    using four_points_dependent[of x2 y2 x3 y3 x4 y4 m6 x1 m7 y1 m8] .
  then have k3: "?D234 * ?W1 = ?D123 * ?W4" using k1 by simp
  have all_zero: False if z: "?W1 = 0 \<and> ?W2 = 0 \<and> ?W3 = 0 \<and> ?W4 = 0"
  proof -
    have "m6 = 0 \<and> m7 = 0 \<and> m8 = 0"
      using functional_zero[OF d123, of m6 m7 m8] z by simp
    moreover have "m0 = 0 \<and> m1 = 0 \<and> m2 = 0"
      using functional_zero[OF d123, of m0 m1 m2] e0 e2 e4 z by simp
    moreover have "m3 = 0 \<and> m4 = 0 \<and> m5 = 0"
      using functional_zero[OF d123, of m3 m4 m5] e1 e3 e5 z by simp
    ultimately show False using nz by simp
  qed
  have "?W1 = 0 \<or> ?W2 = 0 \<or> ?W3 = 0 \<or> ?W4 = 0 \<Longrightarrow> ?W1 = 0 \<and> ?W2 = 0 \<and> ?W3 = 0 \<and> ?W4 = 0"
    using k1 k2 k3 d123 d124 d134 d234
    by (metis mult_eq_0_iff)
  with all_zero show ?thesis by blast
qed

lemma sum_9: "(\<Sum>c = 0..<9. f c) = f 0 + f 1 + f 2 + f 3 + f 4 + f 5 + f 6 + f 7 + f (8::nat)"
  by (simp add: eval_nat_numeral)

lemma set_9: "{0..<9::nat} = {0, 1, 2, 3, 4, 5, 6, 7, 8}"
  by auto

lemma system_rows:
  assumes "solves_system (init_system_equation b r t l W H) m"
  shows "real_of_int (px b) * m ! 0 + real_of_int (py b) * m ! 1 + m ! 2 = 0
     \<and> real_of_int (px b) * m ! 3 + real_of_int (py b) * m ! 4 + m ! 5 = 0
     \<and> real_of_int (px r) * m ! 0 + real_of_int (py r) * m ! 1 + m ! 2
         + (- real_of_int W * real_of_int (px r)) * m ! 6
         + (- real_of_int W * real_of_int (py r)) * m ! 7 + (- real_of_int W) * m ! 8 = 0
     \<and> real_of_int (px r) * m ! 3 + real_of_int (py r) * m ! 4 + m ! 5 = 0
     \<and> real_of_int (px t) * m ! 0 + real_of_int (py t) * m ! 1 + m ! 2
         + (- real_of_int W * real_of_int (px t)) * m ! 6
         + (- real_of_int W * real_of_int (py t)) * m ! 7 + (- real_of_int W) * m ! 8 = 0
     \<and> real_of_int (px t) * m ! 3 + real_of_int (py t) * m ! 4 + m ! 5
         + (- real_of_int H * real_of_int (px t)) * m ! 6
         + (- real_of_int H * real_of_int (py t)) * m ! 7 + (- real_of_int H) * m ! 8 = 0
     \<and> real_of_int (px l) * m ! 0 + real_of_int (py l) * m ! 1 + m ! 2 = 0
     \<and> real_of_int (px l) * m ! 3 + real_of_int (py l) * m ! 4 + m ! 5
         + (- real_of_int H * real_of_int (px l)) * m ! 6
         + (- real_of_int H * real_of_int (py l)) * m ! 7 + (- real_of_int H) * m ! 8 = 0
     \<and> \<not> (m ! 0 = 0 \<and> m ! 1 = 0 \<and> m ! 2 = 0 \<and> m ! 3 = 0 \<and> m ! 4 = 0 \<and> m ! 5 = 0
            \<and> m ! 6 = 0 \<and> m ! 7 = 0 \<and> m ! 8 = 0)"
  using assms
  by (simp add: solves_system_def sum_9 set_9 init_system_equation_def MATRIX_ROW_def Let_def)

lemma system_equations:
  assumes "solves_system (init_system_equation b r t l W H) m"
  shows "m ! 0 * real_of_int (px b) + m ! 1 * real_of_int (py b) + m ! 2 = 0"
    and "m ! 3 * real_of_int (px b) + m ! 4 * real_of_int (py b) + m ! 5 = 0"
    and "m ! 0 * real_of_int (px r) + m ! 1 * real_of_int (py r) + m ! 2
           = real_of_int W * (m ! 6 * real_of_int (px r) + m ! 7 * real_of_int (py r) + m ! 8)"
    and "m ! 3 * real_of_int (px r) + m ! 4 * real_of_int (py r) + m ! 5 = 0"
    and "m ! 0 * real_of_int (px t) + m ! 1 * real_of_int (py t) + m ! 2
           = real_of_int W * (m ! 6 * real_of_int (px t) + m ! 7 * real_of_int (py t) + m ! 8)"
    and "m ! 3 * real_of_int (px t) + m ! 4 * real_of_int (py t) + m ! 5
           = real_of_int H * (m ! 6 * real_of_int (px t) + m ! 7 * real_of_int (py t) + m ! 8)"
    and "m ! 0 * real_of_int (px l) + m ! 1 * real_of_int (py l) + m ! 2 = 0"
    and "m ! 3 * real_of_int (px l) + m ! 4 * real_of_int (py l) + m ! 5
           = real_of_int H * (m ! 6 * real_of_int (px l) + m ! 7 * real_of_int (py l) + m ! 8)"
    and "\<not> (m ! 0 = 0 \<and> m ! 1 = 0 \<and> m ! 2 = 0 \<and> m ! 3 = 0 \<and> m ! 4 = 0 \<and> m ! 5 = 0
            \<and> m ! 6 = 0 \<and> m ! 7 = 0 \<and> m ! 8 = 0)"
  using system_rows[OF assms] by (simp_all add: algebra_simps)

lemma cross3_collinear:
  "cross3 (real_of_int (px p)) (real_of_int (py p)) (real_of_int (px q)) (real_of_int (py q))
      (real_of_int (px s)) (real_of_int (py s)) \<noteq> 0 \<longleftrightarrow> \<not> collinear3 p q s"
proof -
  have "cross3 (real_of_int (px p)) (real_of_int (py p)) (real_of_int (px q)) (real_of_int (py q))
      (real_of_int (px s)) (real_of_int (py s))
      = real_of_int ((px q - px p) * (py s - py p) - (py q - py p) * (px s - px p))"
    by (simp add: cross3_def)
  then show ?thesis unfolding collinear3_def by (simp only: of_int_eq_0_iff) simp
qed

lemma transform_pixel_ratio:
  assumes "m ! 6 * real_of_int x + m ! 7 * real_of_int y + m ! 8 \<noteq> 0"
    and "m ! 0 * real_of_int x + m ! 1 * real_of_int y + m ! 2
           = real_of_int u * (m ! 6 * real_of_int x + m ! 7 * real_of_int y + m ! 8)"
    and "m ! 3 * real_of_int x + m ! 4 * real_of_int y + m ! 5
           = real_of_int v * (m ! 6 * real_of_int x + m ! 7 * real_of_int y + m ! 8)"
  shows "transform_pixel m x y = Some (u, v)"
  using assms(1) unfolding transform_pixel_def Let_def mult_1_right assms(2,3)
  by (simp add: c_round_of_int)

lemma projectable_unit_square:
  "projectable qsort_ref unit_square
     = Some \<lparr>bl = \<lparr>px = 0, py = 0\<rparr>, br = \<lparr>px = 1, py = 0\<rparr>,
             tr = \<lparr>px = 1, py = 1\<rparr>, tl_corner = \<lparr>px = 0, py = 1\<rparr>\<rparr>"
  by code_simp

lemma projectable_three_aligned:
  "projectable qsort_ref anchors_three_aligned
     = Some \<lparr>bl = \<lparr>px = 0, py = 0\<rparr>, br = \<lparr>px = 2, py = 0\<rparr>,
             tr = \<lparr>px = 2, py = 2\<rparr>, tl_corner = \<lparr>px = 1, py = 1\<rparr>\<rparr>"
  by code_simp

lemma column_of_svd_with_column:
  "map (\<lambda>i. svd_with_column [c0, c1, c2, c3, c4, c5, c6, c7, c8] A (i * 9 + 8)) [0..<9]
     = [c0, c1, c2, c3, c4, c5, c6, c7, c8]"
  by (simp add: svd_with_column_def upt_9)

lemma aligned_system_solution:
  "solves_system
     (init_system_equation \<lparr>px = 0, py = 0\<rparr> \<lparr>px = 2, py = 0\<rparr> \<lparr>px = 2, py = 2\<rparr> \<lparr>px = 1, py = 1\<rparr> 1 1)
     [1 / 2, - 1 / 2, 0, 0, 0, 0, 1 / 2, - 1 / 2, 0]"
  by (simp add: solves_system_def sum_9 set_9 init_system_equation_def MATRIX_ROW_def)

lemma aligned_system_undefined:
  assumes "solves_system
     (init_system_equation \<lparr>px = 0, py = 0\<rparr> \<lparr>px = 2, py = 0\<rparr> \<lparr>px = 2, py = 2\<rparr> \<lparr>px = 1, py = 1\<rparr> W H) m"
    and "1 \<le> W" "1 \<le> H"
  shows "transform_pixel m 0 0 = None"
proof -
  note e = system_equations[OF assms(1)]
  have w: "real_of_int W \<noteq> 0" and h: "real_of_int H \<noteq> 0" using assms(2,3) by simp_all
  have m2: "m ! 2 = 0" and m5: "m ! 5 = 0" using e(1,2) by simp_all
  have "m ! 0 + m ! 1 = 0" using e(7) m2 by simp
  then have "m ! 0 * 2 + m ! 1 * 2 + m ! 2 = 0" using m2 by linarith
  then have "real_of_int W * (m ! 6 * 2 + m ! 7 * 2 + m ! 8) = 0" using e(5) by simp
  then have w3: "m ! 6 * 2 + m ! 7 * 2 + m ! 8 = 0" using w by simp
  have "m ! 3 * 2 + m ! 4 * 2 + m ! 5 = 0" using e(6) w3 by simp
  then have "m ! 3 + m ! 4 + m ! 5 = 0" using m5 by linarith
  then have "real_of_int H * (m ! 6 + m ! 7 + m ! 8) = 0" using e(8) by simp
  then have "m ! 6 + m ! 7 + m ! 8 = 0" using h by simp
  with w3 have "m ! 8 = 0" by linarith
  then show ?thesis by (simp add: transform_pixel_def)
qed

text \<open>
  C1 as stated fails. The anchors (0,0), (2,0), (2,2), (1,1) of the tests ("3 aligned") are
  accepted with bl = (0,0), br = (2,0), tr = (2,2), tl = (1,1). For the destination size
  1 x 1 the vector (1/2, -1/2, 0, 0, 0, 0, 1/2, -1/2, 0), of length one, solves the system;
  the matrix made of it sends bl to the zero vector, so that the division by the third
  component is 0/0 and no destination pixel is defined. Every solution of the system
  does so (\<open>aligned_system_undefined\<close>).
\<close>

theorem aligned_corners_counterexample:
  "projectable qsort_ref anchors_three_aligned
     = Some \<lparr>bl = \<lparr>px = 0, py = 0\<rparr>, br = \<lparr>px = 2, py = 0\<rparr>,
             tr = \<lparr>px = 2, py = 2\<rparr>, tl_corner = \<lparr>px = 1, py = 1\<rparr>\<rparr>
   \<and> svd_exact_on (svd_with_column [1 / 2, - 1 / 2, 0, 0, 0, 0, 1 / 2, - 1 / 2, 0])
       (init_system_equation \<lparr>px = 0, py = 0\<rparr> \<lparr>px = 2, py = 0\<rparr> \<lparr>px = 2, py = 2\<rparr> \<lparr>px = 1, py = 1\<rparr> 1 1)
   \<and> make_transform_matrix qsort_ref (svd_with_column [1 / 2, - 1 / 2, 0, 0, 0, 0, 1 / 2, - 1 / 2, 0])
       anchors_three_aligned 1 1 = Some [1 / 2, - 1 / 2, 0, 0, 0, 0, 1 / 2, - 1 / 2, 0]
   \<and> transform_pixel [1 / 2, - 1 / 2, 0, 0, 0, 0, 1 / 2, - 1 / 2, 0] 0 0 = None
   \<and> transform_pixel [1 / 2, - 1 / 2, 0, 0, 0, 0, 1 / 2, - 1 / 2, 0] 0 0 \<noteq> Some (0, 0)"
proof -
  have "svd_exact_on (svd_with_column [1 / 2, - 1 / 2, 0, 0, 0, 0, 1 / 2, - 1 / 2, 0])
       (init_system_equation \<lparr>px = 0, py = 0\<rparr> \<lparr>px = 2, py = 0\<rparr> \<lparr>px = 2, py = 2\<rparr> \<lparr>px = 1, py = 1\<rparr> 1 1)"
    unfolding svd_exact_on_def column_of_svd_with_column by (rule aligned_system_solution)
  moreover have "make_transform_matrix qsort_ref
       (svd_with_column [1 / 2, - 1 / 2, 0, 0, 0, 0, 1 / 2, - 1 / 2, 0])
       anchors_three_aligned 1 1 = Some [1 / 2, - 1 / 2, 0, 0, 0, 0, 1 / 2, - 1 / 2, 0]"
    unfolding make_transform_matrix_def projectable_three_aligned
    by (simp add: column_of_svd_with_column)
  moreover have "transform_pixel [1 / 2, - 1 / 2, 0, 0, 0, 0, 1 / 2, - 1 / 2, 0] 0 0 = None"
    by (simp add: transform_pixel_def)
  ultimately show ?thesis using projectable_three_aligned by simp
qed

text \<open>
  C1 (amended): for every anchor set that the classifier accepts and of whose four
  classified corners no three lie on one line, and every destination width W >= 1 and
  height H >= 1, when \<open>svd\<close> solves the system exactly, the matrix produced by
  \<open>make_transform_matrix\<close> maps the corners bl, br, tr, tl (product with (x, y, 1),
  division by the third component, which is not zero, and rounding) to (0,0), (W,0),
  (W,H), (0,H).
\<close>

theorem estimator_maps_corners:
  assumes "projectable qs anchors = Some r" "1 \<le> W" "1 \<le> H"
    and "\<not> collinear3 (bl r) (br r) (tr r)" "\<not> collinear3 (bl r) (br r) (tl_corner r)"
    and "\<not> collinear3 (bl r) (tr r) (tl_corner r)" "\<not> collinear3 (br r) (tr r) (tl_corner r)"
    and "svd_exact_on svd (init_system_equation (bl r) (br r) (tr r) (tl_corner r) W H)"
  shows "\<exists>m. make_transform_matrix qs svd anchors W H = Some m
           \<and> transform_pixel m (px (bl r)) (py (bl r)) = Some (0, 0)
           \<and> transform_pixel m (px (br r)) (py (br r)) = Some (W, 0)
           \<and> transform_pixel m (px (tr r)) (py (tr r)) = Some (W, H)
           \<and> transform_pixel m (px (tl_corner r)) (py (tl_corner r)) = Some (0, H)"
proof -
  let ?A = "init_system_equation (bl r) (br r) (tr r) (tl_corner r) W H"
  let ?m = "map (\<lambda>i. svd ?A (i * 9 + 8)) [0..<9]"
  have mk: "make_transform_matrix qs svd anchors W H = Some ?m"
    using assms(1) by (simp add: make_transform_matrix_def)
  have sol: "solves_system ?A ?m" using assms(8) by (simp add: svd_exact_on_def)
  note e = system_equations[OF sol]
  have wh: "real_of_int W \<noteq> 0" "real_of_int H \<noteq> 0" using assms(2,3) by simp_all
  note d = dlt_denominators[OF e(1-8) wh
      assms(4)[folded cross3_collinear] assms(5)[folded cross3_collinear]
      assms(6)[folded cross3_collinear] assms(7)[folded cross3_collinear] e(9)]
  have "transform_pixel ?m (px (bl r)) (py (bl r)) = Some (0, 0)"
    using d e(1,2) by (intro transform_pixel_ratio) simp_all
  moreover have "transform_pixel ?m (px (br r)) (py (br r)) = Some (W, 0)"
    using d e(3,4) by (intro transform_pixel_ratio) simp_all
  moreover have "transform_pixel ?m (px (tr r)) (py (tr r)) = Some (W, H)"
    using d e(5,6) by (intro transform_pixel_ratio) simp_all
  moreover have "transform_pixel ?m (px (tl_corner r)) (py (tl_corner r)) = Some (0, H)"
    using d e(7,8) by (intro transform_pixel_ratio) simp_all
  ultimately show ?thesis using mk by blast
qed

lemma stretch_system_solution:
  "solves_system
     (init_system_equation \<lparr>px = 0, py = 0\<rparr> \<lparr>px = 1, py = 0\<rparr> \<lparr>px = 1, py = 1\<rparr> \<lparr>px = 0, py = 1\<rparr> 1 2)
     [1, 0, 0, 0, 2, 0, 0, 0, 1]"
  by (simp add: solves_system_def sum_9 set_9 init_system_equation_def MATRIX_ROW_def)

text \<open>The amended C1 at the unit square and the destination size 1 x 2.\<close>

theorem estimator_maps_corners_witness:
  "projectable qsort_ref unit_square
     = Some \<lparr>bl = \<lparr>px = 0, py = 0\<rparr>, br = \<lparr>px = 1, py = 0\<rparr>,
             tr = \<lparr>px = 1, py = 1\<rparr>, tl_corner = \<lparr>px = 0, py = 1\<rparr>\<rparr>
   \<and> \<not> collinear3 \<lparr>px = 0, py = 0\<rparr> \<lparr>px = 1, py = 0\<rparr> \<lparr>px = 1, py = 1\<rparr>
   \<and> \<not> collinear3 \<lparr>px = 0, py = 0\<rparr> \<lparr>px = 1, py = 0\<rparr> \<lparr>px = 0, py = 1\<rparr>
   \<and> \<not> collinear3 \<lparr>px = 0, py = 0\<rparr> \<lparr>px = 1, py = 1\<rparr> \<lparr>px = 0, py = 1\<rparr>
   \<and> \<not> collinear3 \<lparr>px = 1, py = 0\<rparr> \<lparr>px = 1, py = 1\<rparr> \<lparr>px = 0, py = 1\<rparr>
   \<and> svd_exact_on (svd_with_column [1, 0, 0, 0, 2, 0, 0, 0, 1])
       (init_system_equation \<lparr>px = 0, py = 0\<rparr> \<lparr>px = 1, py = 0\<rparr> \<lparr>px = 1, py = 1\<rparr> \<lparr>px = 0, py = 1\<rparr> 1 2)
   \<and> (\<exists>m. make_transform_matrix qsort_ref (svd_with_column [1, 0, 0, 0, 2, 0, 0, 0, 1]) unit_square 1 2
            = Some m
          \<and> transform_pixel m 0 0 = Some (0, 0)
          \<and> transform_pixel m 1 0 = Some (1, 0)
          \<and> transform_pixel m 1 1 = Some (1, 2)
          \<and> transform_pixel m 0 1 = Some (0, 2))"
proof -
  let ?r = "\<lparr>bl = \<lparr>px = 0, py = 0\<rparr>, br = \<lparr>px = 1, py = 0\<rparr>,
             tr = \<lparr>px = 1, py = 1\<rparr>, tl_corner = \<lparr>px = 0, py = 1\<rparr>\<rparr>"
  have c: "\<not> collinear3 (bl ?r) (br ?r) (tr ?r)" "\<not> collinear3 (bl ?r) (br ?r) (tl_corner ?r)"
    "\<not> collinear3 (bl ?r) (tr ?r) (tl_corner ?r)" "\<not> collinear3 (br ?r) (tr ?r) (tl_corner ?r)"
    by (simp_all add: collinear3_def)
  have s: "svd_exact_on (svd_with_column [1, 0, 0, 0, 2, 0, 0, 0, 1])
       (init_system_equation (bl ?r) (br ?r) (tr ?r) (tl_corner ?r) 1 2)"
    unfolding svd_exact_on_def column_of_svd_with_column
    using stretch_system_solution by simp
  have wh: "(1::int) \<le> 1" "(1::int) \<le> 2" by simp_all
  from estimator_maps_corners[OF projectable_unit_square wh c s] c s projectable_unit_square
  show ?thesis by simp
qed

section \<open>The resampler\<close>

subsection \<open>The first pass\<close>









lemma set_scan: "set (scan w h) = {p. 0 \<le> fst p \<and> fst p < w \<and> 0 \<le> snd p \<and> snd p < h}"
  by (auto simp: scan_def)

lemma index_inj:
  assumes "0 \<le> x2" "x2 < sw" "0 \<le> x2'" "x2' < sw" "y2 * sw + x2 = y2' * sw + x2'"
  shows "x2 = x2' \<and> y2 = (y2'::int)"
proof -
  have "(y2 * sw + x2) mod sw = x2" "(y2' * sw + x2') mod sw = x2'"
    using assms(1-4) by simp_all
  then have x: "x2 = x2'" using assms(5) by simp
  then have "y2 * sw = y2' * sw" using assms(5) by simp
  then show ?thesis using x assms(1,2) by simp
qed






subsection \<open>The test of the destination size\<close>

lemma c_div_pos: "0 < b \<Longrightarrow> 0 \<le> a \<Longrightarrow> c_div a b = a div b"
  by (cases "a = 0") (simp_all add: c_div_def)

lemma overflow_check:
  assumes "0 \<le> w" "0 \<le> h" "COORD_MAX < w * h"
  shows "w \<noteq> 0 \<and> c_div COORD_MAX w < h"
proof -
  have w: "1 \<le> w"
  proof (rule ccontr)
    assume "\<not> 1 \<le> w"
    then have "w = 0" using assms(1) by simp
    then show False using assms(3) by (simp add: COORD_MAX_def)
  qed
  have c: "c_div COORD_MAX w = COORD_MAX div w"
    using w by (simp add: c_div_pos COORD_MAX_def)
  have "COORD_MAX div w < h"
  proof (rule ccontr)
    assume "\<not> COORD_MAX div w < h"
    then have "h \<le> COORD_MAX div w" by simp
    then have "w * h \<le> w * (COORD_MAX div w)" using w by (simp add: mult_left_mono)
    moreover have "w * (COORD_MAX div w) + COORD_MAX mod w = COORD_MAX" by simp
    moreover have "0 \<le> COORD_MAX mod w" using w by simp
    ultimately show False using assms(3) by linarith
  qed
  with c w show ?thesis by simp
qed

text \<open>
  C7: a destination dimension is a width or a height, hence not negative (the caller
  in \<open>gui.c\<close> passes the extents of a bounding box). For all such dimensions whose
  product is beyond \<open>COORD_MAX\<close>, the largest \<open>coord\<close>, \<open>perspector\<close> returns false,
  has not called \<open>calloc\<close> and has left the destination raster as it was, whatever the
  other arguments are.
\<close>

theorem oversized_sink_rejected:
  assumes "0 \<le> sink_width" "0 \<le> sink_height" "COORD_MAX < sink_width * sink_height"
  shows "perspector qs svd calloc_ok fuel sink sink_width sink_height bg_data bg_width bg_height anchors
           = Returned False sink None"
  using overflow_check[OF assms]
  by (simp add: perspector_def split: option.splits)

text \<open>C7 at the destination size 65536 x 32768, whose product is 2^31.\<close>

theorem oversized_sink_rejected_witness:
  "(0::int) \<le> 65536 \<and> (0::int) \<le> 32768 \<and> COORD_MAX < 65536 * 32768
   \<and> perspector qsort_ref (svd_with_column [0, 0, 0, 0, 0, 0, 0, 0, 1]) True 0 (\<lambda>_. blank)
        65536 32768 (\<lambda>_. blank) 1 1 unit_square = Returned False (\<lambda>_. blank) None"
proof -
  have h: "(0::int) \<le> 65536" "(0::int) \<le> 32768" "COORD_MAX < 65536 * 32768"
    by (simp_all add: COORD_MAX_def)
  from oversized_sink_rejected[OF h] h show ?thesis by simp
qed

text \<open>
  C10: with the unit square as anchors, which is classified, and \<open>sink_width = 0\<close>,
  \<open>perspector\<close> comes to \<open>COORD_MAX / sink_width\<close> and divides by zero, whatever the
  other arguments are.
\<close>

theorem zero_width_divides_by_zero:
  "perspector qsort_ref svd calloc_ok fuel sink 0 sink_height bg_data bg_width bg_height unit_square
     = Division_By_Zero"
  by (simp add: perspector_def make_transform_matrix_def projectable_unit_square)

subsection \<open>The second pass\<close>

lemma for_loop_opt_fold: "for_loop_opt i n body s = fold_opt body [i..n - 1] s"
proof (induction i n body s rule: for_loop_opt.induct)
  case (1 i n body s)
  show ?case
  proof (cases "i < n")
    case True
    then have u: "[i..n - 1] = i # [i + 1..n - 1]" by (simp add: upto_rec1)
    show ?thesis
    proof (cases "body i s")
      case None
      with True u show ?thesis by (subst for_loop_opt.simps) simp
    next
      case (Some s')
      with True u 1 show ?thesis by (subst for_loop_opt.simps) simp
    qed
  next
    case False
    then show ?thesis by (subst for_loop_opt.simps) simp
  qed
qed

lemma for_loop_opt_fold_fun: "for_loop_opt i n body = fold_opt body [i..n - 1]"
  by (rule ext) (rule for_loop_opt_fold)

lemma fold_opt_append:
  "fold_opt f (vs @ ws) s = (case fold_opt f vs s of None \<Rightarrow> None | Some s' \<Rightarrow> fold_opt f ws s')"
  by (induction vs arbitrary: s) (simp_all split: option.splits)

lemma fold_opt_nested:
  "fold_opt (\<lambda>x. fold_opt (g x) ys) xs s
     = fold_opt (\<lambda>p. g (fst p) (snd p)) (concat (map (\<lambda>x. map (Pair x) ys) xs)) s"
proof (induction xs arbitrary: s)
  case Nil
  then show ?case by simp
next
  case (Cons x xs)
  have m: "fold_opt (\<lambda>p. g (fst p) (snd p)) (map (Pair x) ys) t = fold_opt (g x) ys t" for t
    by (induction ys arbitrary: t) (simp_all split: option.splits)
  show ?case by (simp add: fold_opt_append m Cons split: option.splits)
qed

lemma gap_pass_fold:
  "gap_pass fuel sw sh s = fold_opt (\<lambda>p. gap_step fuel sw sh (fst p) (snd p)) (scan sw sh) s"
  by (simp add: gap_pass_def for_loop_opt_fold_fun scan_def fold_opt_nested[symmetric])

lemma sample_agree:
  assumes "agree_on_marked s t"
  shows "sample t sw = sample s sw"
  using assms by (intro ext) (auto simp: sample_def agree_on_marked_def Let_def)

lemma sample_agree_at:
  assumes "agree_on_marked s t"
  shows "sample t sw i j acc = sample s sw i j acc"
  by (simp add: sample_agree[OF assms])

lemma search_window_agree:
  assumes "agree_on_marked s t"
  shows "search_window fuel t sw sh x y radius acc = search_window fuel s sw sh x y radius acc"
  unfolding search_window_def sample_agree[OF assms] sample_agree_at[OF assms] ..

lemma radius_loop_agree:
  assumes "agree_on_marked s t"
  shows "radius_loop f fuel t sw sh x y radius acc = radius_loop f fuel s sw sh x y radius acc"
  by (induction f arbitrary: radius acc) (simp_all add: search_window_agree[OF assms] split: option.splits)

lemma fill_pixel_effect:
  assumes "fill_pixel fuel t sw sh x y = Some t'"
  shows "\<exists>acc. radius_loop fuel fuel t sw sh x y 1 no_accum = Some acc
           \<and> t' = t\<lparr>sink_data := (sink_data t)(y * sw + x := mean_color acc)\<rparr>"
  using assms by (auto simp: fill_pixel_def no_accum_def split: option.splits)

lemma gap_step_effect:
  assumes "gap_step fuel sw sh x y t = Some t'" "agree_on_marked s t"
  shows "agree_on_marked s t'"
    and "\<forall>k. k \<noteq> y * sw + x \<longrightarrow> sink_data t' k = sink_data t k"
    and "\<not> transformed_mask s (y * sw + x) \<longrightarrow>
           (\<exists>acc. radius_loop fuel fuel s sw sh x y 1 no_accum = Some acc
              \<and> sink_data t' (y * sw + x) = mean_color acc)"
proof -
  have m: "transformed_mask t = transformed_mask s"
    using assms(2) by (simp add: agree_on_marked_def)
  show "agree_on_marked s t'"
  proof (cases "transformed_mask s (y * sw + x)")
    case True
    then show ?thesis using assms m by (simp add: gap_step_def)
  next
    case False
    then have "fill_pixel fuel t sw sh x y = Some t'" using assms(1) m by (simp add: gap_step_def)
    from fill_pixel_effect[OF this] show ?thesis
      using assms(2) False by (auto simp: agree_on_marked_def)
  qed
  show "\<forall>k. k \<noteq> y * sw + x \<longrightarrow> sink_data t' k = sink_data t k"
  proof (cases "transformed_mask s (y * sw + x)")
    case True
    then show ?thesis using assms m by (simp add: gap_step_def)
  next
    case False
    then have "fill_pixel fuel t sw sh x y = Some t'" using assms(1) m by (simp add: gap_step_def)
    from fill_pixel_effect[OF this] show ?thesis by auto
  qed
  show "\<not> transformed_mask s (y * sw + x) \<longrightarrow>
           (\<exists>acc. radius_loop fuel fuel s sw sh x y 1 no_accum = Some acc
              \<and> sink_data t' (y * sw + x) = mean_color acc)"
  proof
    assume "\<not> transformed_mask s (y * sw + x)"
    then have "fill_pixel fuel t sw sh x y = Some t'" using assms(1) m by (simp add: gap_step_def)
    from fill_pixel_effect[OF this] obtain acc
      where "radius_loop fuel fuel t sw sh x y 1 no_accum = Some acc"
        and "t' = t\<lparr>sink_data := (sink_data t)(y * sw + x := mean_color acc)\<rparr>" by blast
    then show "\<exists>acc. radius_loop fuel fuel s sw sh x y 1 no_accum = Some acc
              \<and> sink_data t' (y * sw + x) = mean_color acc"
      using radius_loop_agree[OF assms(2)] by simp
  qed
qed

lemma fold_gap_invariant:
  assumes "fold_opt (\<lambda>p. gap_step fuel sw sh (fst p) (snd p)) ps t = Some t'"
    and "agree_on_marked s t"
    and "distinct (map (\<lambda>p. snd p * sw + fst p) ps)"
  shows "agree_on_marked s t'
     \<and> (\<forall>k. k \<notin> (\<lambda>p. snd p * sw + fst p) ` set ps \<longrightarrow> sink_data t' k = sink_data t k)
     \<and> (\<forall>p\<in>set ps. \<not> transformed_mask s (snd p * sw + fst p) \<longrightarrow>
           (\<exists>acc. radius_loop fuel fuel s sw sh (fst p) (snd p) 1 no_accum = Some acc
              \<and> sink_data t' (snd p * sw + fst p) = mean_color acc))"
  using assms
proof (induction ps arbitrary: t)
  case Nil
  then show ?case by simp
next
  case (Cons p ps)
  from Cons.prems(1) obtain t1 where t1: "gap_step fuel sw sh (fst p) (snd p) t = Some t1"
    and rest: "fold_opt (\<lambda>p. gap_step fuel sw sh (fst p) (snd p)) ps t1 = Some t'"
    by (auto split: option.splits)
  note e = gap_step_effect[OF t1 Cons.prems(2)]
  have d: "distinct (map (\<lambda>p. snd p * sw + fst p) ps)"
    and n: "snd p * sw + fst p \<notin> (\<lambda>p. snd p * sw + fst p) ` set ps"
    using Cons.prems(3) by auto
  note ih = Cons.IH[OF rest e(1) d]
  have a: "agree_on_marked s t'" using ih by blast
  have b: "\<forall>k. k \<notin> (\<lambda>p. snd p * sw + fst p) ` set (p # ps) \<longrightarrow> sink_data t' k = sink_data t k"
    using ih e(2) by auto
  have c: "\<forall>q\<in>set (p # ps). \<not> transformed_mask s (snd q * sw + fst q) \<longrightarrow>
           (\<exists>acc. radius_loop fuel fuel s sw sh (fst q) (snd q) 1 no_accum = Some acc
              \<and> sink_data t' (snd q * sw + fst q) = mean_color acc)"
  proof
    fix q assume q: "q \<in> set (p # ps)"
    show "\<not> transformed_mask s (snd q * sw + fst q) \<longrightarrow>
           (\<exists>acc. radius_loop fuel fuel s sw sh (fst q) (snd q) 1 no_accum = Some acc
              \<and> sink_data t' (snd q * sw + fst q) = mean_color acc)"
    proof (cases "q \<in> set ps")
      case True
      then show ?thesis using ih by blast
    next
      case False
      then have qp: "q = p" using q by simp
      have "sink_data t' (snd p * sw + fst p) = sink_data t1 (snd p * sw + fst p)"
        using ih n by blast
      then show ?thesis using e(3) qp by simp
    qed
  qed
  from a b c show ?case by blast
qed

lemma distinct_pairs:
  "distinct xs \<Longrightarrow> distinct ys \<Longrightarrow> distinct (concat (map (\<lambda>x. map (Pair x) ys) xs))"
  by (induction xs) (auto simp: distinct_map inj_on_def)

lemma distinct_scan_index: "distinct (map (\<lambda>p. snd p * sw + fst p) (scan sw sh))"
proof -
  have "distinct (scan sw sh)" by (simp add: scan_def distinct_pairs)
  moreover have "inj_on (\<lambda>p. snd p * sw + fst p) (set (scan sw sh))"
  proof (rule inj_onI)
    fix p q assume "p \<in> set (scan sw sh)" "q \<in> set (scan sw sh)"
      and "snd p * sw + fst p = snd q * sw + fst q"
    then have "fst p = fst q \<and> snd p = snd q"
      by (intro index_inj[of _ sw]) (simp_all add: set_scan)
    then show "p = q" by (simp add: prod_eq_iff)
  qed
  ultimately show ?thesis by (simp add: distinct_map)
qed

lemma agree_refl: "agree_on_marked s s"
  by (simp add: agree_on_marked_def)

text \<open>
  C9: when the second pass returns, the mask is as the first pass has left it; the
  marked cells keep their colors; a cell outside the destination is not written; every
  cell of the destination that was not marked holds the mean that its search computes
  on the surface left by the first pass, and that search reads colors of marked cells
  only: on any surface with the same mask and the same colors in the marked cells it
  gives the same sums. So no interpolated color enters the interpolation of another
  cell.
\<close>

theorem gap_filling_reads_marked_only:
  assumes "gap_pass fuel sink_width sink_height s = Some s'"
  shows "transformed_mask s' = transformed_mask s
     \<and> (\<forall>k. transformed_mask s k \<longrightarrow> sink_data s' k = sink_data s k)
     \<and> (\<forall>k. (\<forall>x y. 0 \<le> x \<and> x < sink_width \<and> 0 \<le> y \<and> y < sink_height
                  \<longrightarrow> y * sink_width + x \<noteq> k) \<longrightarrow> sink_data s' k = sink_data s k)
     \<and> (\<forall>x y. 0 \<le> x \<and> x < sink_width \<and> 0 \<le> y \<and> y < sink_height
             \<and> \<not> transformed_mask s (y * sink_width + x) \<longrightarrow>
           (\<exists>acc. radius_loop fuel fuel s sink_width sink_height x y 1 no_accum = Some acc
              \<and> sink_data s' (y * sink_width + x) = mean_color acc))
     \<and> (\<forall>t f x y radius acc.
           transformed_mask t = transformed_mask s
           \<and> (\<forall>k. transformed_mask s k \<longrightarrow> sink_data t k = sink_data s k) \<longrightarrow>
           radius_loop f fuel t sink_width sink_height x y radius acc
             = radius_loop f fuel s sink_width sink_height x y radius acc)"
proof -
  have f: "fold_opt (\<lambda>p. gap_step fuel sink_width sink_height (fst p) (snd p))
             (scan sink_width sink_height) s = Some s'"
    using assms by (simp add: gap_pass_fold)
  note i = fold_gap_invariant[OF f agree_refl distinct_scan_index]
  have a: "transformed_mask s' = transformed_mask s"
    and b: "\<forall>k. transformed_mask s k \<longrightarrow> sink_data s' k = sink_data s k"
    using i by (simp_all add: agree_on_marked_def)
  have c: "\<forall>k. (\<forall>x y. 0 \<le> x \<and> x < sink_width \<and> 0 \<le> y \<and> y < sink_height
                  \<longrightarrow> y * sink_width + x \<noteq> k) \<longrightarrow> sink_data s' k = sink_data s k"
  proof (intro allI impI)
    fix k
    assume h: "\<forall>x y. 0 \<le> x \<and> x < sink_width \<and> 0 \<le> y \<and> y < sink_height
                  \<longrightarrow> y * sink_width + x \<noteq> k"
    have "k \<notin> (\<lambda>p. snd p * sink_width + fst p) ` set (scan sink_width sink_height)"
      using h by (auto simp: set_scan)
    then show "sink_data s' k = sink_data s k" using i by blast
  qed
  have d: "\<forall>x y. 0 \<le> x \<and> x < sink_width \<and> 0 \<le> y \<and> y < sink_height
             \<and> \<not> transformed_mask s (y * sink_width + x) \<longrightarrow>
           (\<exists>acc. radius_loop fuel fuel s sink_width sink_height x y 1 no_accum = Some acc
              \<and> sink_data s' (y * sink_width + x) = mean_color acc)"
  proof (intro allI impI)
    fix x y
    assume h: "0 \<le> x \<and> x < sink_width \<and> 0 \<le> y \<and> y < sink_height
             \<and> \<not> transformed_mask s (y * sink_width + x)"
    then have "(x, y) \<in> set (scan sink_width sink_height)" by (simp add: set_scan)
    with i h show "\<exists>acc. radius_loop fuel fuel s sink_width sink_height x y 1 no_accum = Some acc
              \<and> sink_data s' (y * sink_width + x) = mean_color acc"
      by fastforce
  qed
  have e: "\<forall>t f x y radius acc.
           transformed_mask t = transformed_mask s
           \<and> (\<forall>k. transformed_mask s k \<longrightarrow> sink_data t k = sink_data s k) \<longrightarrow>
           radius_loop f fuel t sink_width sink_height x y radius acc
             = radius_loop f fuel s sink_width sink_height x y radius acc"
    using radius_loop_agree by (simp add: agree_on_marked_def)
  from a b c d e show ?thesis by blast
qed

lemma step_loop_two:
  "lo < hi \<Longrightarrow> step_loop (Suc (Suc f)) lo hi (hi - lo) body acc = Some (body hi (body lo acc))"
  by (cases f) simp_all

lemma radius_loop_once:
  assumes "found acc = 0" "search_window fuel s sw sh x y radius acc = Some acc'" "found acc' \<noteq> 0"
  shows "radius_loop (Suc (Suc f)) fuel s sw sh x y radius acc = Some acc'"
  using assms by simp

lemma sample_corner:
  "sample corner_marked 2 i j acc =
     (if j * 2 + i = 0 then acc\<lparr>found := found acc + 1, red_buf := red_buf acc,
          green_buf := green_buf acc, blue_buf := blue_buf acc + 40, alpha_buf := alpha_buf acc\<rparr>
      else acc)"
  by (simp add: sample_def corner_marked_def numbered_def)

lemma window_corner:
  assumes "0 \<le> x" "x < 2" "0 \<le> y" "y < 2"
  shows "search_window 2 corner_marked 2 2 x y 1 no_accum
     = Some \<lparr>found = 2, red_buf = 0, green_buf = 0, blue_buf = 80, alpha_buf = 0\<rparr>"
proof -
  have "x = 0 \<or> x = 1" "y = 0 \<or> y = 1" using assms by auto
  then show ?thesis
    by (auto simp: search_window_def eval_nat_numeral for_loop.simps sample_corner no_accum_def)
qed

lemma radius_corner:
  assumes "0 \<le> x" "x < 2" "0 \<le> y" "y < 2"
  shows "radius_loop 2 2 corner_marked 2 2 x y 1 no_accum
     = Some \<lparr>found = 2, red_buf = 0, green_buf = 0, blue_buf = 80, alpha_buf = 0\<rparr>"
proof -
  have "radius_loop (Suc (Suc 0)) 2 corner_marked 2 2 x y 1 no_accum
     = Some \<lparr>found = 2, red_buf = 0, green_buf = 0, blue_buf = 80, alpha_buf = 0\<rparr>"
    by (rule radius_loop_once[OF _ window_corner[OF assms]]) (simp_all add: no_accum_def)
  then show ?thesis by (simp add: eval_nat_numeral)
qed

lemma gap_pass_corner: "\<exists>s'. gap_pass 2 2 2 corner_marked = Some s'"
proof -
  have f: "fill_pixel 2 t 2 2 x y \<noteq> None"
    if "agree_on_marked corner_marked t" "0 \<le> x" "x < 2" "0 \<le> y" "y < 2" for t x y
    using radius_loop_agree[OF that(1), of 2 2 2 2 x y 1 no_accum] radius_corner[OF that(2-5)]
    by (simp add: fill_pixel_def no_accum_def)
  have g: "\<exists>t'. gap_step 2 2 2 x y t = Some t' \<and> agree_on_marked corner_marked t'"
    if h: "agree_on_marked corner_marked t" "0 \<le> x" "x < 2" "0 \<le> y" "y < 2" for t x y
  proof -
    have "gap_step 2 2 2 x y t \<noteq> None"
      using f[OF h] by (simp add: gap_step_def)
    then obtain t' where "gap_step 2 2 2 x y t = Some t'" by blast
    then show ?thesis using gap_step_effect(1)[OF _ h(1)] by blast
  qed
  have "\<exists>t'. fold_opt (\<lambda>p. gap_step 2 2 2 (fst p) (snd p)) ps t = Some t'"
    if "set ps \<subseteq> set (scan 2 2)" "agree_on_marked corner_marked t" for ps t
    using that
  proof (induction ps arbitrary: t)
    case Nil
    then show ?case by simp
  next
    case (Cons p ps)
    have "0 \<le> fst p" "fst p < 2" "0 \<le> snd p" "snd p < 2"
      using Cons.prems(1) by (simp_all add: set_scan)
    from g[OF Cons.prems(2) this] obtain t1 where
      "gap_step 2 2 2 (fst p) (snd p) t = Some t1" "agree_on_marked corner_marked t1" by blast
    then show ?case using Cons.IH[of t1] Cons.prems(1) by simp
  qed
  from this[of "scan 2 2" corner_marked] show ?thesis
    by (simp add: gap_pass_fold agree_refl)
qed

text \<open>
  C9 on a 2 x 2 destination of which the cell (0,0) alone is marked, with blue 40: the
  second pass returns, the cell (1,1) gets blue 40 and the cell number 7, outside the
  destination, is untouched.
\<close>

theorem gap_filling_reads_marked_only_witness:
  "\<exists>s'. gap_pass 2 2 2 corner_marked = Some s'
     \<and> transformed_mask s' = transformed_mask corner_marked
     \<and> sink_data s' 0 = numbered 40
     \<and> sink_data s' 3 = \<lparr>blue = 40, green = 0, red = 0, alpha = 0\<rparr>
     \<and> sink_data s' 7 = numbered 47"
proof -
  obtain s' where s: "gap_pass 2 2 2 corner_marked = Some s'"
    using gap_pass_corner by blast
  note t = gap_filling_reads_marked_only[OF s]
  have a: "transformed_mask s' = transformed_mask corner_marked" using t by blast
  have "transformed_mask corner_marked 0" by (simp add: corner_marked_def)
  then have b: "sink_data s' 0 = numbered 40" using t by (simp add: corner_marked_def)
  have "\<forall>x y. 0 \<le> x \<and> x < 2 \<and> 0 \<le> y \<and> y < 2 \<longrightarrow> y * 2 + x \<noteq> (7::int)" by auto
  then have "sink_data s' 7 = sink_data corner_marked 7" using t by blast
  then have c: "sink_data s' 7 = numbered 47" by (simp add: corner_marked_def)
  have "0 \<le> (1::int) \<and> (1::int) < 2 \<and> 0 \<le> (1::int) \<and> (1::int) < 2
        \<and> \<not> transformed_mask corner_marked (1 * 2 + 1)" by (simp add: corner_marked_def)
  then have "\<exists>acc. radius_loop 2 2 corner_marked 2 2 1 1 1 no_accum = Some acc
              \<and> sink_data s' (1 * 2 + 1) = mean_color acc"
    using t by blast
  then have d: "sink_data s' 3 = \<lparr>blue = 40, green = 0, red = 0, alpha = 0\<rparr>"
    by (simp add: radius_corner mean_color_def to_char_def)
  from s a b c d show ?thesis by blast
qed

subsection \<open>A destination of one column\<close>

lemma step_loop_stuck: "i \<le> hi \<Longrightarrow> step_loop fuel i hi 0 body s = None"
  by (induction fuel arbitrary: s) simp_all

lemma search_window_one_column:
  assumes "1 \<le> radius"
  shows "search_window fuel s 1 sh 0 y radius acc = None"
  using assms by (simp add: search_window_def step_loop_stuck)

lemma radius_loop_one_column:
  assumes "1 \<le> radius" "found acc = 0"
  shows "radius_loop f fuel s 1 sh 0 y radius acc = None"
  using assms by (cases f) (simp_all add: search_window_one_column)

lemma fill_pixel_one_column: "fill_pixel fuel s 1 sh 0 y = None"
  by (simp add: fill_pixel_def radius_loop_one_column)

lemma stretch_system_unique:
  assumes "solves_system
     (init_system_equation \<lparr>px = 0, py = 0\<rparr> \<lparr>px = 1, py = 0\<rparr> \<lparr>px = 1, py = 1\<rparr> \<lparr>px = 0, py = 1\<rparr> 1 2) m"
  shows "transform_pixel m x y = Some (x, 2 * y)"
proof -
  note e = system_equations[OF assms]
  have m2: "m ! 2 = 0" and m5: "m ! 5 = 0" using e(1,2) by simp_all
  have m3: "m ! 3 = 0" using e(4) m5 by simp
  have m1: "m ! 1 = 0" using e(7) m2 by simp
  have a: "m ! 0 = m ! 6 + m ! 8" using e(3) m2 by simp
  have b: "m ! 0 = m ! 6 + m ! 7 + m ! 8" using e(5) m1 m2 by simp
  have c: "m ! 4 = 2 * (m ! 6 + m ! 7 + m ! 8)" using e(6) m3 m5 by simp
  have d: "m ! 4 = 2 * (m ! 7 + m ! 8)" using e(8) m5 by simp
  have m7: "m ! 7 = 0" using a b by linarith
  have "2 * (m ! 6 + m ! 7 + m ! 8) = 2 * (m ! 7 + m ! 8)" using c d by simp
  then have m6: "m ! 6 = 0" by simp
  have m0: "m ! 0 = m ! 8" using a m6 by simp
  have m4: "m ! 4 = 2 * m ! 8" using d m7 by simp
  have m8: "m ! 8 \<noteq> 0" using e(9) m0 m1 m2 m3 m4 m5 m6 m7 by auto
  have m1': "m ! Suc 0 = 0" using m1 by simp
  show ?thesis
    by (rule transform_pixel_ratio) (simp_all add: m0 m1' m2 m3 m4 m5 m6 m7 m8)
qed

lemma forward_pass_stretch_any:
  assumes "\<And>x y. transform_pixel m x y = Some (x, 2 * y)"
  shows "forward_pass m 1 2 bg 2 2 \<lparr>sink_data = sink, transformed_mask = (\<lambda>_. False)\<rparr>
     = \<lparr>sink_data = sink(0 := bg 0), transformed_mask = (\<lambda>_. False)(0 := True)\<rparr>"
  by (simp add: forward_pass_def for_loop.simps forward_step_def assms)

text \<open>
  C8 at the unit square as anchors, a 2 x 2 source and a 1 x 2 destination: the
  classification succeeds, every exact solution of the system sends (x, y) to (x, 2 y)
  (\<open>stretch_system_unique\<close>), the first pass marks the cell (0,0) alone, and the
  search for the cell (0,1) does not end, whatever the fuel. At radius 1 the window is
  cut to the one column of the destination, \<open>x_max - x_min\<close> is 0, and the loop
  \<^verbatim>\<open>for (i = x_min; i <= x_max; i += x_max - x_min)\<close> never goes on
  (\<open>step_loop_stuck\<close>).
\<close>

theorem narrow_sink_never_returns:
  assumes "svd_exact_on svd
     (init_system_equation \<lparr>px = 0, py = 0\<rparr> \<lparr>px = 1, py = 0\<rparr> \<lparr>px = 1, py = 1\<rparr> \<lparr>px = 0, py = 1\<rparr> 1 2)"
  shows "perspector qsort_ref svd True fuel sink 1 2 bg_data 2 2 unit_square = Never_Returns"
proof -
  let ?A = "init_system_equation \<lparr>px = 0, py = 0\<rparr> \<lparr>px = 1, py = 0\<rparr> \<lparr>px = 1, py = 1\<rparr> \<lparr>px = 0, py = 1\<rparr> 1 2"
  let ?m = "map (\<lambda>i. svd ?A (i * 9 + 8)) [0..<9]"
  let ?s = "\<lparr>sink_data = sink(0 := bg_data 0), transformed_mask = (\<lambda>_. False)(0 := True)\<rparr>"
  have mk: "make_transform_matrix qsort_ref svd unit_square 1 2 = Some ?m"
    by (simp add: make_transform_matrix_def projectable_unit_square)
  have "solves_system ?A ?m" using assms by (simp add: svd_exact_on_def)
  then have t: "transform_pixel ?m x y = Some (x, 2 * y)" for x y
    by (rule stretch_system_unique)
  have fp: "forward_pass ?m 1 2 bg_data 2 2 \<lparr>sink_data = sink, transformed_mask = (\<lambda>_. False)\<rparr> = ?s"
    using t by (rule forward_pass_stretch_any)
  have "gap_step fuel 1 2 0 0 ?s = Some ?s" by (simp add: gap_step_def)
  moreover have "gap_step fuel 1 2 0 1 ?s = None"
    by (simp add: gap_step_def fill_pixel_one_column)
  ultimately have "gap_pass fuel 1 2 ?s = None"
    by (simp add: gap_pass_def for_loop_opt.simps)
  then show ?thesis
    unfolding perspector_def mk option.case fp by (simp add: c_div_def COORD_MAX_def)
qed

text \<open>The run with the solution (1, 0, 0, 0, 2, 0, 0, 0, 1) of the system.\<close>

theorem narrow_sink_never_returns_witness:
  "svd_exact_on (svd_with_column [1, 0, 0, 0, 2, 0, 0, 0, 1])
     (init_system_equation \<lparr>px = 0, py = 0\<rparr> \<lparr>px = 1, py = 0\<rparr> \<lparr>px = 1, py = 1\<rparr> \<lparr>px = 0, py = 1\<rparr> 1 2)
   \<and> perspector qsort_ref (svd_with_column [1, 0, 0, 0, 2, 0, 0, 0, 1]) True 1000 (\<lambda>_. blank) 1 2
       numbered 2 2 unit_square = Never_Returns"
proof -
  have s: "svd_exact_on (svd_with_column [1, 0, 0, 0, 2, 0, 0, 0, 1])
     (init_system_equation \<lparr>px = 0, py = 0\<rparr> \<lparr>px = 1, py = 0\<rparr> \<lparr>px = 1, py = 1\<rparr> \<lparr>px = 0, py = 1\<rparr> 1 2)"
    unfolding svd_exact_on_def column_of_svd_with_column by (rule stretch_system_solution)
  from narrow_sink_never_returns[OF s] s show ?thesis by simp
qed

end
